theory Spec2Isabelle
  imports Complex_Main "HOL-Library.Log_Nat" "HOL-Library.Sublist"
begin

section \<open>JavaScript numbers and strings\<close>

text \<open>
  The detector computes its confidence with JavaScript numbers, that is IEEE 754 binary64
  values under round-to-nearest, ties-to-even. A finite double is modelled by the rational
  it denotes; \<open>to_double\<close> rounds an exact rational to the nearest double (53 significant
  bits, gradual underflow below \<open>2 powi - 1022\<close>), and \<open>fadd\<close> is the correctly rounded
  sum. Overflow to infinity (magnitudes from \<open>2 ^ 1024\<close>) and NaN are outside the model:
  the detector only adds at most seven constants below one third to zero.
\<close>

type_synonym double = rat

definition binade :: "rat \<Rightarrow> int" where
  \<comment> \<open>for \<open>0 < q\<close>: the exponent \<open>e\<close> with \<open>2 powi e \<le> q < 2 powi (e + 1)\<close>\<close>
  "binade q = (let (n, d) = quotient_of q; e = bitlen n - bitlen d
               in if 2 powi e \<le> q then e else e - 1)"

definition round_ties_even :: "rat \<Rightarrow> int" where
  "round_ties_even x = (let f = \<lfloor>x\<rfloor>; r = x - of_int f
     in if r < 1 / 2 then f else if 1 / 2 < r then f + 1 else if even f then f else f + 1)"

definition to_double :: "rat \<Rightarrow> double" where
  "to_double q = (if q = 0 then 0 else
     let u = 2 powi (max (binade \<bar>q\<bar>) (- 1022) - 52)
     in of_int (round_ties_even (q / u)) * u)"

definition fadd :: "double \<Rightarrow> double \<Rightarrow> double" where
  "fadd x y = to_double (x + y)"

text \<open>
  Template literals render a number in decimal. Array lengths are naturals below
  \<open>2 ^ 32\<close> and are printed digit by digit. \<open>dependentsCount\<close> is modelled as an
  integer; fractional and non-finite numbers are outside the model. A JavaScript number holds
  every integer of magnitude below \<open>2 ^ 53\<close> exactly and prints it digit by digit, which
  is what \<open>number_to_string\<close> computes. From \<open>2 ^ 53\<close> on the language prints the
  shortest digits that identify the double, padded with zeros (\<open>2 ^ 57\<close> is printed as
  144115188075855870), and from \<open>10 ^ 21\<close> on it prints an exponent (1e+21): that
  rendering is not modelled, and what is proved below of a text that embeds the count is
  proved for counts of magnitude below \<open>2 ^ 53\<close> only.
\<close>

definition digit_char :: "nat \<Rightarrow> char" where
  "digit_char d = ''0123456789'' ! (d mod 10)"

fun nat_to_string :: "nat \<Rightarrow> string" where
  "nat_to_string n =
     (if n < 10 then [digit_char n] else nat_to_string (n div 10) @ [digit_char (n mod 10)])"

declare nat_to_string.simps [simp del]

definition number_to_string :: "int \<Rightarrow> string" where
  "number_to_string i =
     (if i < 0 then CHR ''-'' # nat_to_string (nat (- i)) else nat_to_string (nat i))"

text \<open>\<open>Array.prototype.join\<close>, \<open>String.prototype.includes\<close> and \<open>endsWith\<close>.\<close>

fun join :: "string \<Rightarrow> string list \<Rightarrow> string" where
  "join sep [] = []"
| "join sep [x] = x"
| "join sep (x # y # ys) = x @ sep @ join sep (y # ys)"

fun includes_str :: "string \<Rightarrow> string \<Rightarrow> bool" where
  "includes_str [] s = (s = [])"
| "includes_str (c # cs) s = (take (length s) (c # cs) = s \<or> includes_str cs s)"

definition endsWith :: "string \<Rightarrow> string \<Rightarrow> bool" where
  "endsWith p s = (length s \<le> length p \<and> drop (length p - length s) p = s)"


section \<open>Data model\<close>

datatype Scope = ScopeFile | ScopeModule | ScopeProject

record ChangeAnalysis =
  affectedFiles :: "string list"
  affectedConcepts :: "string list"
  scope :: Scope
  patternChanges :: "string list"
  dependentsCount :: int
  breakingChanges :: bool
  configurationChanges :: bool

datatype Recommendation = Rec_record | Rec_skip | Rec_use_project_decision

record ArchitecturalDecisionCriteria =
  isArchitectural :: bool
  confidence :: double
  reasons :: "string list"
  recommendation :: Recommendation


section \<open>assessArchitecturalDecision\<close>

text \<open>
  The function keeps two locals, the array \<open>reasons\<close> and the number \<open>confidence\<close>;
  each criterion is a step on that pair (\<open>push\<close> appends, \<open>+=\<close> is \<open>fadd\<close>).
\<close>

record scoring =
  reasons_acc :: "string list"
  confidence_acc :: double

definition trigger :: "string \<Rightarrow> rat \<Rightarrow> scoring \<Rightarrow> scoring" where
  \<comment> \<open>\<open>reasons.push(text); confidence += w\<close>, with \<open>w\<close> a decimal literal\<close>
  "trigger text w st =
     st\<lparr>reasons_acc := reasons_acc st @ [text],
        confidence_acc := fadd (confidence_acc st) (to_double w)\<rparr>"

definition criterion1 :: "ChangeAnalysis \<Rightarrow> scoring \<Rightarrow> scoring" where
  "criterion1 analysis st =
     (if length (affectedFiles analysis) \<ge> 3
      then trigger (''Affects '' @ nat_to_string (length (affectedFiles analysis)) @ '' files'')
             (3 / 10) st
      else st)"

definition criterion2 :: "ChangeAnalysis \<Rightarrow> scoring \<Rightarrow> scoring" where
  "criterion2 analysis st =
     (if length (affectedConcepts analysis) \<ge> 10
      then trigger (''Affects '' @ nat_to_string (length (affectedConcepts analysis))
                      @ '' semantic concepts'')
             (25 / 100) st
      else st)"

definition criterion3 :: "ChangeAnalysis \<Rightarrow> scoring \<Rightarrow> scoring" where
  "criterion3 analysis st =
     (if scope analysis = ScopeProject then trigger ''Project-wide scope detected'' (3 / 10) st
      else if scope analysis = ScopeModule then trigger ''Module-wide scope detected'' (15 / 100) st
      else st)"

definition criterion4 :: "ChangeAnalysis \<Rightarrow> scoring \<Rightarrow> scoring" where
  "criterion4 analysis st =
     (if dependentsCount analysis \<ge> 5
      then trigger (''Affects '' @ number_to_string (dependentsCount analysis)
                      @ '' dependent files'')
             (2 / 10) st
      else st)"

definition criterion5 :: "ChangeAnalysis \<Rightarrow> scoring \<Rightarrow> scoring" where
  "criterion5 analysis st =
     (if length (patternChanges analysis) > 0
      then trigger (''Introduces '' @ nat_to_string (length (patternChanges analysis))
                      @ '' pattern changes'')
             (25 / 100) st
      else st)"

definition criterion6 :: "ChangeAnalysis \<Rightarrow> scoring \<Rightarrow> scoring" where
  "criterion6 analysis st =
     (if breakingChanges analysis then trigger ''Contains breaking changes'' (2 / 10) st else st)"

definition criterion7 :: "ChangeAnalysis \<Rightarrow> scoring \<Rightarrow> scoring" where
  "criterion7 analysis st =
     (if configurationChanges analysis
      then trigger ''Modifies project configuration'' (15 / 100) st
      else st)"

definition run_criteria :: "ChangeAnalysis \<Rightarrow> scoring" where
  "run_criteria analysis =
     criterion7 analysis (criterion6 analysis (criterion5 analysis (criterion4 analysis
       (criterion3 analysis (criterion2 analysis (criterion1 analysis
          \<lparr>reasons_acc = [], confidence_acc = 0\<rparr>))))))"

definition rawConfidence :: "ChangeAnalysis \<Rightarrow> double" where
  \<comment> \<open>the local \<open>confidence\<close> when the thresholds are compared, before \<open>Math.min\<close>\<close>
  "rawConfidence analysis = confidence_acc (run_criteria analysis)"

definition assessArchitecturalDecision :: "ChangeAnalysis \<Rightarrow> ArchitecturalDecisionCriteria" where
  "assessArchitecturalDecision analysis =
     (let st = run_criteria analysis;
          c = confidence_acc st;
          isArch = (c \<ge> to_double (4 / 10));
          rec = (if isArch then Rec_record
                 else if c \<ge> to_double (2 / 10) then Rec_use_project_decision
                 else Rec_skip)
      in \<lparr>isArchitectural = isArch, confidence = min 1 c, reasons = reasons_acc st,
          recommendation = rec\<rparr>)"



section \<open>isArchitecturallySignificantFile\<close>

definition architecturalIndicators :: "string list" where
  "architecturalIndicators =
     [''package.json'', ''tsconfig.json'', ''Cargo.toml'', ''go.mod'', ''pom.xml'',
      ''build.gradle'', ''pyproject.toml'',
      ''main.ts'', ''main.js'', ''index.ts'', ''index.js'', ''app.py'', ''main.rs'', ''main.go'',
      ''architecture.md'', ''adr/'', ''docs/architecture'',
      ''src/core/'', ''src/infrastructure/'', ''src/framework/'', ''lib/core/'']"

definition isArchitecturallySignificantFile :: "string \<Rightarrow> bool" where
  "isArchitecturallySignificantFile filePath =
     list_ex (\<lambda>indicator. includes_str filePath indicator \<or> endsWith filePath indicator)
       architecturalIndicators"


section \<open>extractDecisionContext\<close>

record DecisionContext =
  decisionContext :: string
  suggestedRationale :: string
  suggestedAlternatives :: "(string \<times> string) list"

definition extractDecisionContext :: "ChangeAnalysis \<Rightarrow> DecisionContext" where
  "extractDecisionContext analysis =
     (if length (patternChanges analysis) > 0 then
        \<lparr>decisionContext = ''Adopted '' @ join '', '' (patternChanges analysis) @ '' pattern(s)'',
         suggestedRationale = ''Pattern detected across ''
            @ nat_to_string (length (affectedFiles analysis)) @ '' files'',
         suggestedAlternatives = []\<rparr>
      else if scope analysis = ScopeProject then
        \<lparr>decisionContext = ''Project-wide change affecting ''
            @ nat_to_string (length (affectedFiles analysis)) @ '' files'',
         suggestedRationale = ''Change impacts multiple modules and ''
            @ nat_to_string (length (affectedConcepts analysis)) @ '' concepts'',
         suggestedAlternatives = []\<rparr>
      else if breakingChanges analysis then
        \<lparr>decisionContext = ''Breaking change introduced'',
         suggestedRationale = ''Change affects ''
            @ number_to_string (dependentsCount analysis) @ '' dependent files'',
         suggestedAlternatives = []\<rparr>
      else
        \<lparr>decisionContext = ''Structural change affecting ''
            @ nat_to_string (length (affectedFiles analysis)) @ '' files'',
         suggestedRationale = ''Change impacts ''
            @ nat_to_string (length (affectedConcepts analysis)) @ '' semantic concepts'',
         suggestedAlternatives = []\<rparr>)"


section \<open>isLikelyArchitectural\<close>

text \<open>
  \<open>Partial<ChangeAnalysis>\<close>: every field may be \<open>undefined\<close> (\<open>None\<close>). Reading
  \<open>.length\<close> of \<open>undefined\<close> throws a \<open>TypeError\<close>, so the expression is evaluated
  to an error or a truth value, with the short-circuit of \<open>&&\<close> and \<open>||\<close>: the right
  operand is a function of the left one's value and is only evaluated when the left operand
  does not decide. The outer \<open>!!\<close> keeps only the truth value; a number is truthy unless
  it is zero, an array always, \<open>undefined\<close> never.
\<close>

record PartialChangeAnalysis =
  p_affectedFiles :: "string list option"
  p_affectedConcepts :: "string list option"
  p_scope :: "Scope option"
  p_patternChanges :: "string list option"
  p_dependentsCount :: "int option"
  p_breakingChanges :: "bool option"
  p_configurationChanges :: "bool option"

datatype js_error = TypeError

definition length_of :: "string list option \<Rightarrow> js_error + nat" where
  "length_of v = (case v of None \<Rightarrow> Inl TypeError | Some xs \<Rightarrow> Inr (length xs))"

definition js_and :: "bool \<Rightarrow> js_error + bool \<Rightarrow> js_error + bool" where
  \<comment> \<open>\<open>a && b\<close>, from the truthiness of \<open>a\<close>\<close>
  "js_and a b = (if a then b else Inr False)"

definition js_or :: "js_error + bool \<Rightarrow> js_error + bool \<Rightarrow> js_error + bool" where
  "js_or a b = (case a of Inl e \<Rightarrow> Inl e | Inr t \<Rightarrow> if t then Inr True else b)"

definition length_ge :: "string list option \<Rightarrow> nat \<Rightarrow> js_error + bool" where
  "length_ge v n = (case length_of v of Inl e \<Rightarrow> Inl e | Inr k \<Rightarrow> Inr (k \<ge> n))"

definition length_gt :: "string list option \<Rightarrow> nat \<Rightarrow> js_error + bool" where
  "length_gt v n = (case length_of v of Inl e \<Rightarrow> Inl e | Inr k \<Rightarrow> Inr (k > n))"

definition isLikelyArchitectural :: "PartialChangeAnalysis \<Rightarrow> js_error + bool" where
  "isLikelyArchitectural analysis =
     js_or (js_and (p_affectedFiles analysis \<noteq> None) (length_ge (p_affectedFiles analysis) 3))
    (js_or (js_and (p_affectedConcepts analysis \<noteq> None)
              (length_ge (p_affectedConcepts analysis) 10))
    (js_or (Inr (p_scope analysis = Some ScopeProject))
    (js_or (js_and (case p_dependentsCount analysis of None \<Rightarrow> False | Some n \<Rightarrow> n \<noteq> 0)
              (Inr (case p_dependentsCount analysis of None \<Rightarrow> False | Some n \<Rightarrow> n \<ge> 5)))
    (js_or (js_and (p_patternChanges analysis \<noteq> None)
              (length_gt (p_patternChanges analysis) 0))
           (Inr (p_breakingChanges analysis = Some True))))))"

definition as_partial :: "ChangeAnalysis \<Rightarrow> PartialChangeAnalysis" where
  \<comment> \<open>a complete record passed where a partial one is expected\<close>
  "as_partial a =
     \<lparr>p_affectedFiles = Some (affectedFiles a), p_affectedConcepts = Some (affectedConcepts a),
      p_scope = Some (scope a), p_patternChanges = Some (patternChanges a),
      p_dependentsCount = Some (dependentsCount a), p_breakingChanges = Some (breakingChanges a),
      p_configurationChanges = Some (configurationChanges a)\<rparr>"


section \<open>The criteria table and auxiliary notions\<close>

text \<open>
  The table of the seven criteria as the specification lists it: trigger, listed weight and
  reason text, in evaluation order (rows 3a and 3b are the two scope rows).
  \<open>triggeredCriteria\<close> keeps the rows whose trigger holds and \<open>listedWeightSum\<close> adds
  their listed weights exactly, as decimal fractions.
\<close>

definition criteriaTable :: "ChangeAnalysis \<Rightarrow> (bool \<times> rat \<times> string) list" where
  "criteriaTable a =
     [(length (affectedFiles a) \<ge> 3, 30 / 100,
         ''Affects '' @ nat_to_string (length (affectedFiles a)) @ '' files''),
      (length (affectedConcepts a) \<ge> 10, 25 / 100,
         ''Affects '' @ nat_to_string (length (affectedConcepts a)) @ '' semantic concepts''),
      (scope a = ScopeProject, 30 / 100, ''Project-wide scope detected''),
      (scope a = ScopeModule, 15 / 100, ''Module-wide scope detected''),
      (dependentsCount a \<ge> 5, 20 / 100,
         ''Affects '' @ number_to_string (dependentsCount a) @ '' dependent files''),
      (length (patternChanges a) > 0, 25 / 100,
         ''Introduces '' @ nat_to_string (length (patternChanges a)) @ '' pattern changes''),
      (breakingChanges a, 20 / 100, ''Contains breaking changes''),
      (configurationChanges a, 15 / 100, ''Modifies project configuration'')]"

definition triggeredCriteria :: "ChangeAnalysis \<Rightarrow> (bool \<times> rat \<times> string) list" where
  "triggeredCriteria a = filter (\<lambda>(t, w, r). t) (criteriaTable a)"

definition listedWeightSum :: "ChangeAnalysis \<Rightarrow> rat" where
  "listedWeightSum a = sum_list (map (\<lambda>(t, w, r). w) (triggeredCriteria a))"

text \<open>Orders on the scope and on the recommendation: file < module < project and
  skip < \<open>use_project_decision\<close> < record.\<close>

definition scope_rank :: "Scope \<Rightarrow> nat" where
  "scope_rank s = (case s of ScopeFile \<Rightarrow> 0 | ScopeModule \<Rightarrow> 1 | ScopeProject \<Rightarrow> 2)"

definition recommendation_rank :: "Recommendation \<Rightarrow> nat" where
  "recommendation_rank r = (case r of Rec_skip \<Rightarrow> 0 | Rec_use_project_decision \<Rightarrow> 1 | Rec_record \<Rightarrow> 2)"

text \<open>
  The running confidence as a function of the seven trigger values alone (\<open>raw7\<close>), with
  one conditional rounded addition per criterion, and the same sum counted exactly in units
  of 0.05 (\<open>units7\<close>).
\<close>

definition fstep :: "bool \<Rightarrow> rat \<Rightarrow> double \<Rightarrow> double" where
  "fstep t w c = (if t then fadd c (to_double w) else c)"

definition estep :: "bool \<Rightarrow> rat \<Rightarrow> rat \<Rightarrow> rat" where
  "estep t w s = (if t then s + w else s)"

definition raw7 :: "bool \<Rightarrow> bool \<Rightarrow> Scope \<Rightarrow> bool \<Rightarrow> bool \<Rightarrow> bool \<Rightarrow> bool \<Rightarrow> double" where
  "raw7 t1 t2 s t4 t5 t6 t7 =
     fstep t7 (15 / 100) (fstep t6 (2 / 10) (fstep t5 (25 / 100) (fstep t4 (2 / 10)
       (fstep (s = ScopeModule) (15 / 100) (fstep (s = ScopeProject) (3 / 10)
         (fstep t2 (25 / 100) (fstep t1 (3 / 10) 0)))))))"

definition units7 :: "bool \<Rightarrow> bool \<Rightarrow> Scope \<Rightarrow> bool \<Rightarrow> bool \<Rightarrow> bool \<Rightarrow> bool \<Rightarrow> int" where
  "units7 t1 t2 s t4 t5 t6 t7 =
     (if t1 then 6 else 0) + (if t2 then 5 else 0)
     + (case s of ScopeFile \<Rightarrow> 0 | ScopeModule \<Rightarrow> 3 | ScopeProject \<Rightarrow> 6)
     + (if t4 then 4 else 0) + (if t5 then 5 else 0) + (if t6 then 4 else 0)
     + (if t7 then 3 else 0)"

text \<open>A criterion as one conditional step on the two locals, for comparing the code with
  the table row by row.\<close>

definition cstep :: "bool \<Rightarrow> rat \<Rightarrow> string \<Rightarrow> scoring \<Rightarrow> scoring" where
  "cstep t w r st = (if t then trigger r w st else st)"

text \<open>
  Sample inputs: a change with the given numbers of affected files, affected concepts and
  pattern changes, and the given scope, dependents count and flags.
\<close>

definition analysis_of :: "nat \<Rightarrow> nat \<Rightarrow> Scope \<Rightarrow> nat \<Rightarrow> int \<Rightarrow> bool \<Rightarrow> bool \<Rightarrow> ChangeAnalysis" where
  "analysis_of nf nc s np d b c =
     \<lparr>affectedFiles = replicate nf ''f.ts'', affectedConcepts = replicate nc ''concept'',
      scope = s, patternChanges = replicate np ''Observer'', dependentsCount = d,
      breakingChanges = b, configurationChanges = c\<rparr>"


section \<open>Properties of the path matcher\<close>

lemma includes_str_sublist: "includes_str p s = sublist s p"
proof (induction p)
  case Nil
  then show ?case by simp
next
  case (Cons c cs)
  have "prefix s (c # cs) = (take (length s) (c # cs) = s)"
    by (metis append_eq_conv_conj prefix_def append_take_drop_id)
  then show ?case using Cons by (simp add: sublist_Cons_right)
qed

lemma endsWith_suffix: "endsWith p s = suffix s p"
proof
  assume "endsWith p s"
  then have "p = take (length p - length s) p @ s"
    unfolding endsWith_def by (metis append_take_drop_id)
  then show "suffix s p" by (rule suffixI)
next
  assume "suffix s p"
  then obtain pre where "p = pre @ s" by (auto simp: suffix_def)
  then show "endsWith p s" by (simp add: endsWith_def)
qed

lemma significant_iff_sublist_or_suffix:
  "isArchitecturallySignificantFile p =
     (\<exists>i. i \<in> set architecturalIndicators \<and> (sublist i p \<or> suffix i p))"
  unfolding isArchitecturallySignificantFile_def list_ex_iff includes_str_sublist endsWith_suffix
  by blast

lemma significant_when_ending_in_indicator:
  "i \<in> set architecturalIndicators \<Longrightarrow> isArchitecturallySignificantFile (dir @ i)"
  unfolding significant_iff_sublist_or_suffix by (meson suffix_appendI suffix_order.refl)

text \<open>
  C8. A path is significant iff it contains one of the catalog's indicators as a substring
  or ends with one of them. In particular a path that ends in an indicator (such as a manifest
  file name) matches under any directory prefix. Characters are compared as they are: a
  manifest name in another letter case, or a core directory written with backslashes, does
  not match.
\<close>

theorem significant_file_match_rule:
  "(isArchitecturallySignificantFile p =
      (\<exists>i. i \<in> set architecturalIndicators \<and>
         ((\<exists>pre post. p = pre @ i @ post) \<or> (\<exists>pre. p = pre @ i))))
   \<and> (\<forall>dir i. i \<in> set architecturalIndicators \<longrightarrow>
          isArchitecturallySignificantFile (dir @ i))
   \<and> \<not> isArchitecturallySignificantFile ''Package.JSON''
   \<and> \<not> isArchitecturallySignificantFile
          (''src'' @ [CHR 0x5C] @ ''core'' @ [CHR 0x5C] @ ''util.ts'')"
proof (intro conjI allI impI)
  show "isArchitecturallySignificantFile p =
      (\<exists>i. i \<in> set architecturalIndicators \<and>
         ((\<exists>pre post. p = pre @ i @ post) \<or> (\<exists>pre. p = pre @ i)))"
    unfolding significant_iff_sublist_or_suffix sublist_def suffix_def by simp
next
  fix dir i
  assume "i \<in> set architecturalIndicators"
  then show "isArchitecturallySignificantFile (dir @ i)"
    by (rule significant_when_ending_in_indicator)
next
  show "\<not> isArchitecturallySignificantFile ''Package.JSON''"
    by (simp add: isArchitecturallySignificantFile_def architecturalIndicators_def endsWith_def)
next
  show "\<not> isArchitecturallySignificantFile
          (''src'' @ [CHR 0x5C] @ ''core'' @ [CHR 0x5C] @ ''util.ts'')"
    by (simp add: isArchitecturallySignificantFile_def architecturalIndicators_def endsWith_def)
qed

theorem significant_file_match_rule_witness:
  "''package.json'' \<in> set architecturalIndicators
   \<and> isArchitecturallySignificantFile (''packages/app/'' @ ''package.json'')"
proof -
  have m: "''package.json'' \<in> set architecturalIndicators"
    by (simp add: architecturalIndicators_def)
  from significant_file_match_rule [of "[]"]
  have "\<forall>dir i. i \<in> set architecturalIndicators \<longrightarrow>
          isArchitecturallySignificantFile (dir @ i)"
    by blast
  with m show ?thesis by blast
qed

text \<open>
  C10. The suffix test never adds a match: the function equals the substring test alone.
  So a path that only embeds an indicator inside a longer file name matches; every path
  ending in \<open>reindex.ts\<close> does, through the indicator \<open>index.ts\<close>.
\<close>

theorem significant_file_is_substring_test:
  "isArchitecturallySignificantFile p
     = list_ex (\<lambda>indicator. includes_str p indicator) architecturalIndicators
   \<and> isArchitecturallySignificantFile (pre @ ''reindex.ts'')"
proof (intro conjI)
  have "endsWith p i \<longrightarrow> includes_str p i" for i
    unfolding includes_str_sublist endsWith_suffix by (rule impI) (rule suffix_imp_sublist)
  then show "isArchitecturallySignificantFile p
     = list_ex (\<lambda>indicator. includes_str p indicator) architecturalIndicators"
    unfolding isArchitecturallySignificantFile_def list_ex_iff by blast
next
  have "sublist ''index.ts'' ((pre @ ''re'') @ ''index.ts'' @ [])"
    by (rule sublist_appendI)
  then have "sublist ''index.ts'' (pre @ ''reindex.ts'')" by simp
  moreover have "''index.ts'' \<in> set architecturalIndicators"
    by (simp add: architecturalIndicators_def)
  ultimately show "isArchitecturallySignificantFile (pre @ ''reindex.ts'')"
    unfolding significant_iff_sublist_or_suffix by blast
qed


section \<open>Properties of the narrative\<close>

text \<open>
  C7. The branches form a priority chain and exactly one of them produces the result:
  pattern changes first, then project scope, then breaking changes, then the default. The
  decision context is the text of the first matching branch and the alternatives are empty.
  The rationale is that branch's text too; in the breaking-change branch it embeds the
  dependents count, which is stated for counts of magnitude below \<open>2 ^ 53\<close>.
  With pattern changes present, the result is the pattern text whatever the scope, the
  breaking-change flag and the other fields are; it is never the breaking-change text.
\<close>

theorem extractDecisionContext_priority_chain:
  "decisionContext (extractDecisionContext a) =
     (if patternChanges a \<noteq> [] then
        ''Adopted '' @ join '', '' (patternChanges a) @ '' pattern(s)''
      else if scope a = ScopeProject then
        ''Project-wide change affecting ''
          @ nat_to_string (length (affectedFiles a)) @ '' files''
      else if breakingChanges a then ''Breaking change introduced''
      else ''Structural change affecting ''
          @ nat_to_string (length (affectedFiles a)) @ '' files'')
   \<and> suggestedAlternatives (extractDecisionContext a) = []
   \<and> ((patternChanges a = [] \<and> scope a \<noteq> ScopeProject \<and> breakingChanges a
          \<longrightarrow> \<bar>dependentsCount a\<bar> < 2 ^ 53) \<longrightarrow>
        suggestedRationale (extractDecisionContext a) =
          (if patternChanges a \<noteq> [] then
             ''Pattern detected across ''
               @ nat_to_string (length (affectedFiles a)) @ '' files''
           else if scope a = ScopeProject then
             ''Change impacts multiple modules and ''
               @ nat_to_string (length (affectedConcepts a)) @ '' concepts''
           else if breakingChanges a then
             ''Change affects '' @ number_to_string (dependentsCount a) @ '' dependent files''
           else ''Change impacts ''
               @ nat_to_string (length (affectedConcepts a)) @ '' semantic concepts''))
   \<and> (patternChanges a \<noteq> [] \<longrightarrow>
        decisionContext (extractDecisionContext a) \<noteq> ''Breaking change introduced''
        \<and> (\<forall>s b cs n c.
              extractDecisionContext
                (a\<lparr>scope := s, breakingChanges := b, affectedConcepts := cs,
                   dependentsCount := n, configurationChanges := c\<rparr>)
              = extractDecisionContext a))"
  by (simp add: extractDecisionContext_def)

theorem extractDecisionContext_priority_chain_witness:
  "patternChanges (analysis_of 2 0 ScopeProject 2 7 True False) \<noteq> []
   \<and> extractDecisionContext (analysis_of 2 0 ScopeProject 2 7 True False)
     = \<lparr>decisionContext = ''Adopted Observer, Observer pattern(s)'',
        suggestedRationale = ''Pattern detected across 2 files'',
        suggestedAlternatives = []\<rparr>
   \<and> decisionContext (extractDecisionContext (analysis_of 2 0 ScopeProject 2 7 True False))
     \<noteq> ''Breaking change introduced''
   \<and> patternChanges (analysis_of 2 0 ScopeModule 0 7 True False) = []
   \<and> scope (analysis_of 2 0 ScopeModule 0 7 True False) \<noteq> ScopeProject
   \<and> breakingChanges (analysis_of 2 0 ScopeModule 0 7 True False)
   \<and> \<bar>dependentsCount (analysis_of 2 0 ScopeModule 0 7 True False)\<bar> < 2 ^ 53
   \<and> extractDecisionContext (analysis_of 2 0 ScopeModule 0 7 True False)
     = \<lparr>decisionContext = ''Breaking change introduced'',
        suggestedRationale = ''Change affects 7 dependent files'',
        suggestedAlternatives = []\<rparr>"
proof -
  have p: "patternChanges (analysis_of 2 0 ScopeProject 2 7 True False) \<noteq> []"
    by (simp add: analysis_of_def)
  have b: "patternChanges (analysis_of 2 0 ScopeModule 0 7 True False) = []"
    "scope (analysis_of 2 0 ScopeModule 0 7 True False) \<noteq> ScopeProject"
    "breakingChanges (analysis_of 2 0 ScopeModule 0 7 True False)"
    "\<bar>dependentsCount (analysis_of 2 0 ScopeModule 0 7 True False)\<bar> < 2 ^ 53"
    by (simp_all add: analysis_of_def)
  have n: "nat_to_string 2 = ''2''" "number_to_string 7 = ''7''"
    by (simp_all add: number_to_string_def nat_to_string.simps digit_char_def)
  have l: "length (affectedFiles (analysis_of 2 0 ScopeProject 2 7 True False)) = 2"
    "patternChanges (analysis_of 2 0 ScopeProject 2 7 True False) = [''Observer'', ''Observer'']"
    "dependentsCount (analysis_of 2 0 ScopeModule 0 7 True False) = 7"
    by (simp_all add: analysis_of_def numeral_2_eq_2)
  have e1: "extractDecisionContext (analysis_of 2 0 ScopeProject 2 7 True False)
     = \<lparr>decisionContext = ''Adopted Observer, Observer pattern(s)'',
        suggestedRationale = ''Pattern detected across 2 files'',
        suggestedAlternatives = []\<rparr>"
    using extractDecisionContext_priority_chain
      [of "analysis_of 2 0 ScopeProject 2 7 True False"] p
    by (intro DecisionContext.equality) (simp_all add: l n)
  have e2: "extractDecisionContext (analysis_of 2 0 ScopeModule 0 7 True False)
     = \<lparr>decisionContext = ''Breaking change introduced'',
        suggestedRationale = ''Change affects 7 dependent files'',
        suggestedAlternatives = []\<rparr>"
    using extractDecisionContext_priority_chain
      [of "analysis_of 2 0 ScopeModule 0 7 True False"] b
    by (intro DecisionContext.equality) (simp_all add: l n)
  from extractDecisionContext_priority_chain
      [of "analysis_of 2 0 ScopeProject 2 7 True False"] p
  have "decisionContext (extractDecisionContext (analysis_of 2 0 ScopeProject 2 7 True False))
     \<noteq> ''Breaking change introduced''"
    by blast
  with p b e1 e2 show ?thesis by blast
qed


section \<open>Properties of the fast path\<close>

lemma fast_path_value:
  "isLikelyArchitectural p =
     Inr ((\<exists>fs. p_affectedFiles p = Some fs \<and> 3 \<le> length fs)
        \<or> (\<exists>cs. p_affectedConcepts p = Some cs \<and> 10 \<le> length cs)
        \<or> p_scope p = Some ScopeProject
        \<or> (\<exists>n. p_dependentsCount p = Some n \<and> 5 \<le> n)
        \<or> (\<exists>ps. p_patternChanges p = Some ps \<and> ps \<noteq> [])
        \<or> p_breakingChanges p = Some True)"
  by (cases "p_affectedFiles p"; cases "p_affectedConcepts p"; cases "p_dependentsCount p";
      cases "p_patternChanges p")
     (auto simp: isLikelyArchitectural_def js_or_def js_and_def length_ge_def length_gt_def
        length_of_def)

text \<open>
  C6. On every partial record the fast path returns a truth value, never an error, and it is
  true iff one of the six clauses holds: affectedFiles present with at least 3 entries,
  affectedConcepts present with at least 10, scope equal to project, dependentsCount present
  and at least 5, patternChanges present and non-empty, breakingChanges true. An absent field
  satisfies no clause.
\<close>

theorem isLikelyArchitectural_iff:
  "isLikelyArchitectural p =
     Inr ((\<exists>fs. p_affectedFiles p = Some fs \<and> 3 \<le> length fs)
        \<or> (\<exists>cs. p_affectedConcepts p = Some cs \<and> 10 \<le> length cs)
        \<or> p_scope p = Some ScopeProject
        \<or> (\<exists>n. p_dependentsCount p = Some n \<and> 5 \<le> n)
        \<or> (\<exists>ps. p_patternChanges p = Some ps \<and> ps \<noteq> [])
        \<or> p_breakingChanges p = Some True)"
  by (rule fast_path_value)


section \<open>Properties of the rounding model\<close>

lemma powi_two_pos: "(0::rat) < 2 powi e"
  by simp

lemma powi_two_mono: "a \<le> b \<Longrightarrow> (2::rat) powi a \<le> 2 powi b"
  by (rule power_int_increasing) simp_all

lemma powi_two_succ: "(2::rat) powi (e + 1) = 2 * 2 powi e"
  by (simp add: power_int_add)

lemma binade_bounds:
  assumes "0 < q"
  shows "2 powi binade q \<le> q \<and> q < 2 powi (binade q + 1)"
proof -
  obtain n d where nd: "quotient_of q = (n, d)" by (cases "quotient_of q")
  have dpos: "0 < d" using nd by (rule quotient_of_denom_pos)
  have q: "q = of_int n / of_int d" using nd by (rule quotient_of_div)
  have npos: "0 < n" using assms dpos q by (simp add: zero_less_divide_iff)
  define e where "e = bitlen n - bitlen d"
  have bn: "2 ^ nat (bitlen n - 1) \<le> n" "n < 2 ^ nat (bitlen n)"
    using bitlen_bounds [OF npos] by auto
  have bd: "2 ^ nat (bitlen d - 1) \<le> d" "d < 2 ^ nat (bitlen d)"
    using bitlen_bounds [OF dpos] by auto
  have ln: "1 \<le> bitlen n" using npos by (simp add: bitlen_alt_def)
  have ld: "1 \<le> bitlen d" using dpos by (simp add: bitlen_alt_def)
  have n_lo: "(2::rat) powi (bitlen n - 1) \<le> of_int n"
  proof -
    have "(of_int (2 ^ nat (bitlen n - 1)) :: rat) \<le> of_int n"
      using bn(1) by (simp only: of_int_le_iff)
    then show ?thesis using ln by (simp add: power_int_def)
  qed
  have n_hi: "of_int n < (2::rat) powi (bitlen n)"
  proof -
    have "(of_int n :: rat) < of_int (2 ^ nat (bitlen n))"
      using bn(2) by (simp only: of_int_less_iff)
    then show ?thesis using ln by (simp add: power_int_def)
  qed
  have d_lo: "(2::rat) powi (bitlen d - 1) \<le> of_int d"
  proof -
    have "(of_int (2 ^ nat (bitlen d - 1)) :: rat) \<le> of_int d"
      using bd(1) by (simp only: of_int_le_iff)
    then show ?thesis using ld by (simp add: power_int_def)
  qed
  have d_hi: "of_int d < (2::rat) powi (bitlen d)"
  proof -
    have "(of_int d :: rat) < of_int (2 ^ nat (bitlen d))"
      using bd(2) by (simp only: of_int_less_iff)
    then show ?thesis using ld by (simp add: power_int_def)
  qed
  have dq: "(0::rat) < of_int d" using dpos by simp
  have hi: "q < 2 powi (e + 1)"
  proof -
    have "of_int n < (2::rat) powi (bitlen n)" by (rule n_hi)
    also have "\<dots> = 2 powi (e + 1) * 2 powi (bitlen d - 1)"
      by (simp add: e_def power_int_add [symmetric])
    also have "\<dots> \<le> 2 powi (e + 1) * of_int d"
      using d_lo powi_two_pos [of "e + 1"] by (simp add: mult_left_mono)
    finally show ?thesis using dq by (simp add: q pos_divide_less_eq)
  qed
  have lo: "2 powi (e - 1) \<le> q"
  proof -
    have "(2::rat) powi (e - 1) * of_int d \<le> 2 powi (e - 1) * 2 powi (bitlen d)"
      using d_hi powi_two_pos [of "e - 1"] by (simp add: mult_left_mono)
    also have "\<dots> = 2 powi (bitlen n - 1)"
      by (simp add: e_def power_int_add [symmetric])
    also have "\<dots> \<le> of_int n" by (rule n_lo)
    finally show ?thesis using dq by (simp add: q pos_le_divide_eq)
  qed
  have b: "binade q = (if 2 powi e \<le> q then e else e - 1)"
    by (simp add: binade_def nd e_def Let_def)
  show ?thesis
  proof (cases "2 powi e \<le> q")
    case True
    then show ?thesis using b hi by simp
  next
    case False
    then show ?thesis using b lo by simp
  qed
qed

lemma binade_eqI:
  assumes "2 powi e \<le> q" and "q < 2 powi (e + 1)"
  shows "binade q = e"
proof -
  have qpos: "0 < q" using assms(1) powi_two_pos [of e] by linarith
  note b = binade_bounds [OF qpos]
  have "\<not> binade q + 1 \<le> e"
  proof
    assume "binade q + 1 \<le> e"
    then have "(2::rat) powi (binade q + 1) \<le> 2 powi e" by (rule powi_two_mono)
    with b assms(1) show False by simp
  qed
  moreover have "\<not> e + 1 \<le> binade q"
  proof
    assume "e + 1 \<le> binade q"
    then have "(2::rat) powi (e + 1) \<le> 2 powi binade q" by (rule powi_two_mono)
    with b assms(2) show False by simp
  qed
  ultimately show ?thesis by simp
qed

lemma round_ties_even_error: "\<bar>of_int (round_ties_even x) - x\<bar> \<le> 1 / 2"
proof -
  have f: "of_int \<lfloor>x\<rfloor> \<le> x" "x < of_int \<lfloor>x\<rfloor> + 1" by linarith+
  show ?thesis
    unfolding round_ties_even_def Let_def using f by (auto simp: abs_le_iff)
qed

lemma round_ties_even_eqI:
  assumes "\<bar>x - of_int m\<bar> < 1 / 2 \<or> (\<bar>x - of_int m\<bar> = 1 / 2 \<and> even m)"
  shows "round_ties_even x = m"
proof -
  have f: "of_int \<lfloor>x\<rfloor> \<le> x" "x < of_int \<lfloor>x\<rfloor> + 1" by linarith+
  from assms show ?thesis
  proof
    assume a: "\<bar>x - of_int m\<bar> < 1 / 2"
    show ?thesis
    proof (cases "x - of_int \<lfloor>x\<rfloor> < 1 / 2")
      case True
      have "(of_int m :: rat) < of_int \<lfloor>x\<rfloor> + 1" "(of_int \<lfloor>x\<rfloor> :: rat) < of_int m + 1"
        using a True f by linarith+
      then have "m < \<lfloor>x\<rfloor> + 1" "\<lfloor>x\<rfloor> < m + 1" by linarith+
      then have "\<lfloor>x\<rfloor> = m" by simp
      then show ?thesis using True by (simp add: round_ties_even_def Let_def)
    next
      case False
      have "(of_int m :: rat) < of_int \<lfloor>x\<rfloor> + 2" "(of_int \<lfloor>x\<rfloor> :: rat) < of_int m"
        using a False f by linarith+
      then have "m < \<lfloor>x\<rfloor> + 2" "\<lfloor>x\<rfloor> < m" by linarith+
      then have m: "m = \<lfloor>x\<rfloor> + 1" by simp
      from a m have "\<bar>x - (of_int \<lfloor>x\<rfloor> + 1)\<bar> < 1 / 2" by simp
      then have "1 / 2 < x - of_int \<lfloor>x\<rfloor>" by linarith
      then show ?thesis using False m by (simp add: round_ties_even_def Let_def)
    qed
  next
    assume a: "\<bar>x - of_int m\<bar> = 1 / 2 \<and> even m"
    then consider "x = of_int m + 1 / 2" | "x = of_int m - 1 / 2" by linarith
    then show ?thesis
    proof cases
      case 1
      then have fl: "\<lfloor>x\<rfloor> = m" by linarith
      then show ?thesis using 1 a by (simp add: round_ties_even_def Let_def)
    next
      case 2
      then have fl: "\<lfloor>x\<rfloor> = m - 1" by linarith
      then show ?thesis using 2 a by (simp add: round_ties_even_def Let_def)
    qed
  qed
qed

lemma to_double_error:
  assumes "\<bar>q\<bar> < 2"
  shows "\<bar>to_double q - q\<bar> \<le> 1 / 2 ^ 53"
proof (cases "q = 0")
  case True
  then show ?thesis by (simp add: to_double_def)
next
  case False
  then have qpos: "0 < \<bar>q\<bar>" by simp
  define e where "e = max (binade \<bar>q\<bar>) (- 1022)"
  define u :: rat where "u = 2 powi (e - 52)"
  have "(2::rat) powi binade \<bar>q\<bar> < 2 powi 1"
    using binade_bounds [OF qpos] assms by simp
  then have "\<not> 1 \<le> binade \<bar>q\<bar>"
    using powi_two_mono [of 1 "binade \<bar>q\<bar>"] by linarith
  then have "binade \<bar>q\<bar> < 1" by simp
  then have "e \<le> 0" by (simp add: e_def)
  then have "u \<le> 2 powi (- 52)" unfolding u_def by (intro powi_two_mono) simp
  then have u_le: "u \<le> 1 / 2 ^ 52" by (simp add: power_int_minus field_simps)
  have upos: "0 < u" by (simp add: u_def)
  have td: "to_double q = of_int (round_ties_even (q / u)) * u"
    using False by (simp add: to_double_def u_def e_def Let_def)
  have "to_double q - q = (of_int (round_ties_even (q / u)) - q / u) * u"
    using upos by (simp add: td field_simps)
  then have "\<bar>to_double q - q\<bar> = \<bar>of_int (round_ties_even (q / u)) - q / u\<bar> * u"
    using upos by (simp add: abs_mult)
  also have "\<dots> \<le> (1 / 2) * u"
    using round_ties_even_error [of "q / u"] upos by (intro mult_right_mono) simp_all
  also have "\<dots> \<le> (1 / 2) * (1 / 2 ^ 52)" using u_le by simp
  finally show ?thesis by simp
qed

lemma to_double_eqI:
  assumes "2 powi e \<le> \<bar>q\<bar>" and "\<bar>q\<bar> < 2 powi (e + 1)" and "- 1022 \<le> e"
    and "\<bar>q / 2 powi (e - 52) - of_int m\<bar> < 1 / 2
         \<or> (\<bar>q / 2 powi (e - 52) - of_int m\<bar> = 1 / 2 \<and> even m)"
  shows "to_double q = of_int m * 2 powi (e - 52)"
proof -
  have b: "binade \<bar>q\<bar> = e" using assms(1,2) by (rule binade_eqI)
  have "0 < \<bar>q\<bar>" using assms(1) powi_two_pos [of e] by linarith
  then have nz: "q \<noteq> 0" by simp
  have "round_ties_even (q / 2 powi (e - 52)) = m" using assms(4) by (rule round_ties_even_eqI)
  then show ?thesis using nz b assms(3) by (simp add: to_double_def Let_def max_def)
qed

text \<open>Every integer of magnitude below \<open>2 ^ 53\<close> is a double: a count in that range
  reaches the code as the number it is.\<close>

lemma safe_integer_is_double:
  assumes "\<bar>i\<bar> < 2 ^ 53"
  shows "to_double (of_int i) = of_int i"
proof (cases "i = 0")
  case True
  then show ?thesis by (simp add: to_double_def)
next
  case False
  define q :: rat where "q = of_int i"
  define e where "e = binade \<bar>q\<bar>"
  have qpos: "0 < \<bar>q\<bar>" using False by (simp add: q_def)
  note b = binade_bounds [OF qpos, folded e_def]
  have q1: "1 \<le> \<bar>q\<bar>"
  proof -
    have "1 \<le> \<bar>i\<bar>" using False by simp
    then have "(of_int 1 :: rat) \<le> of_int \<bar>i\<bar>" by (simp only: of_int_le_iff)
    then show ?thesis by (simp add: q_def)
  qed
  have q53: "\<bar>q\<bar> < 2 powi 53"
  proof -
    have "(of_int \<bar>i\<bar> :: rat) < of_int (2 ^ 53)" using assms by (simp only: of_int_less_iff)
    then show ?thesis by (simp add: q_def)
  qed
  have "\<not> 53 \<le> e"
  proof
    assume "53 \<le> e"
    then have "(2::rat) powi 53 \<le> 2 powi e" by (rule powi_two_mono)
    with b q53 show False by linarith
  qed
  then have e52: "e \<le> 52" by simp
  have "\<not> e + 1 \<le> 0"
  proof
    assume "e + 1 \<le> 0"
    then have "(2::rat) powi (e + 1) \<le> 2 powi 0" by (rule powi_two_mono)
    with b q1 show False by simp
  qed
  then have e0: "0 \<le> e" by simp
  define m where "m = i * 2 ^ nat (52 - e)"
  have u: "(2::rat) powi (e - 52) * 2 ^ nat (52 - e) = 1"
  proof -
    have "(2::rat) ^ nat (52 - e) = 2 powi (52 - e)" using e52 by (simp add: power_int_def)
    moreover have "(2::rat) powi (e - 52) * 2 powi (52 - e) = 2 powi ((e - 52) + (52 - e))"
      by (rule power_int_add [symmetric]) simp
    ultimately show ?thesis by simp
  qed
  have pos: "(0::rat) < 2 powi (e - 52)" by (rule powi_two_pos)
  have mq: "of_int m * 2 powi (e - 52) = q"
    using u by (simp add: m_def q_def mult.assoc mult.commute)
  then have "q / 2 powi (e - 52) = of_int m" using pos by (simp add: field_simps)
  then have r: "\<bar>q / 2 powi (e - 52) - of_int m\<bar> < 1 / 2
         \<or> (\<bar>q / 2 powi (e - 52) - of_int m\<bar> = 1 / 2 \<and> even m)" by simp
  have "to_double q = of_int m * 2 powi (e - 52)"
    using b e0 r by (intro to_double_eqI) simp_all
  then show ?thesis using mq by (simp add: q_def)
qed

lemma d15: "to_double (15 / 100) = 5404319552844595 / 2 ^ 55"
  using to_double_eqI [of "-3" "15 / 100" 5404319552844595]
  by (simp add: power_int_minus)

lemma d20: "to_double (2 / 10) = 3602879701896397 / 2 ^ 54"
  using to_double_eqI [of "-3" "2 / 10" 7205759403792794]
  by (simp add: power_int_minus)

lemma d25: "to_double (25 / 100) = 1 / 4"
  using to_double_eqI [of "-2" "25 / 100" 4503599627370496]
  by (simp add: power_int_minus)

lemma d30: "to_double (3 / 10) = 5404319552844595 / 2 ^ 54"
  using to_double_eqI [of "-2" "3 / 10" 5404319552844595]
  by (simp add: power_int_minus)

lemma d40: "to_double (4 / 10) = 3602879701896397 / 2 ^ 53"
  using to_double_eqI [of "-2" "4 / 10" 7205759403792794]
  by (simp add: power_int_minus)

lemma fstep_err:
  assumes "\<bar>c - s\<bar> \<le> k / 2 ^ 53" "0 \<le> s" "s \<le> B" "0 \<le> w" "B + w \<le> 19 / 10" "k \<le> 16"
  shows "\<bar>fstep t w c - estep t w s\<bar> \<le> (k + 2) / 2 ^ 53
         \<and> 0 \<le> estep t w s \<and> estep t w s \<le> B + w"
proof (cases t)
  case False
  then show ?thesis using assms by (simp add: fstep_def estep_def field_simps)
next
  case True
  have w2: "\<bar>w\<bar> < 2" using assms by simp
  have e1: "\<bar>to_double w - w\<bar> \<le> 1 / 2 ^ 53" using w2 by (rule to_double_error)
  have "\<bar>c + to_double w\<bar> \<le> \<bar>c - s\<bar> + \<bar>to_double w - w\<bar> + (s + w)"
    using assms(2,4) by linarith
  also have "\<dots> \<le> k / 2 ^ 53 + 1 / 2 ^ 53 + 19 / 10" using assms e1 by linarith
  also have "\<dots> < 2" using assms(6) by simp
  finally have "\<bar>c + to_double w\<bar> < 2" .
  then have e2: "\<bar>to_double (c + to_double w) - (c + to_double w)\<bar> \<le> 1 / 2 ^ 53"
    by (rule to_double_error)
  have "\<bar>to_double (c + to_double w) - (s + w)\<bar> \<le> k / 2 ^ 53 + 1 / 2 ^ 53 + 1 / 2 ^ 53"
    using e1 e2 assms(1) by linarith
  then show ?thesis using True assms by (simp add: fstep_def estep_def fadd_def add_divide_distrib)
qed


section \<open>The running confidence against the exact sum\<close>

lemma rawConfidence_raw7:
  "rawConfidence a = raw7 (3 \<le> length (affectedFiles a)) (10 \<le> length (affectedConcepts a))
     (scope a) (5 \<le> dependentsCount a) (patternChanges a \<noteq> []) (breakingChanges a)
     (configurationChanges a)"
  by (simp add: rawConfidence_def run_criteria_def criterion1_def criterion2_def criterion3_def
      criterion4_def criterion5_def criterion6_def criterion7_def trigger_def raw7_def fstep_def)

lemma listedWeightSum_units7:
  "listedWeightSum a = of_int (units7 (3 \<le> length (affectedFiles a))
     (10 \<le> length (affectedConcepts a))
     (scope a) (5 \<le> dependentsCount a) (patternChanges a \<noteq> []) (breakingChanges a)
     (configurationChanges a)) / 20"
  by (cases "scope a")
     (simp_all add: listedWeightSum_def triggeredCriteria_def criteriaTable_def units7_def)


lemma raw7_error:
  "\<bar>raw7 t1 t2 s t4 t5 t6 t7 - of_int (units7 t1 t2 s t4 t5 t6 t7) / 20\<bar> \<le> 1 / 2 ^ 49"
proof -
  define c1 where "c1 = fstep t1 (3 / 10) 0"
  define c2 where "c2 = fstep t2 (25 / 100) c1"
  define c3 where "c3 = fstep (s = ScopeProject) (3 / 10) c2"
  define c4 where "c4 = fstep (s = ScopeModule) (15 / 100) c3"
  define c5 where "c5 = fstep t4 (2 / 10) c4"
  define c6 where "c6 = fstep t5 (25 / 100) c5"
  define c7 where "c7 = fstep t6 (2 / 10) c6"
  define c8 where "c8 = fstep t7 (15 / 100) c7"
  define s1 where "s1 = estep t1 (3 / 10) 0"
  define s2 where "s2 = estep t2 (25 / 100) s1"
  define s3 where "s3 = estep (s = ScopeProject) (3 / 10) s2"
  define s4 where "s4 = estep (s = ScopeModule) (15 / 100) s3"
  define s5 where "s5 = estep t4 (2 / 10) s4"
  define s6 where "s6 = estep t5 (25 / 100) s5"
  define s7 where "s7 = estep t6 (2 / 10) s6"
  define s8 where "s8 = estep t7 (15 / 100) s7"
  have h1: "\<bar>c1 - s1\<bar> \<le> 2 / 2 ^ 53 \<and> 0 \<le> s1 \<and> s1 \<le> 3 / 10"
    unfolding c1_def s1_def
    using fstep_err [of 0 0 0 0 "3 / 10" t1] by simp
  have h2: "\<bar>c2 - s2\<bar> \<le> 4 / 2 ^ 53 \<and> 0 \<le> s2 \<and> s2 \<le> 11 / 20"
    unfolding c2_def s2_def
    using fstep_err [of c1 s1 2 "3 / 10" "25 / 100" t2] h1 by simp
  have h3: "\<bar>c3 - s3\<bar> \<le> 6 / 2 ^ 53 \<and> 0 \<le> s3 \<and> s3 \<le> 17 / 20"
    unfolding c3_def s3_def
    using fstep_err [of c2 s2 4 "11 / 20" "3 / 10" "s = ScopeProject"] h2 by simp
  have h4: "\<bar>c4 - s4\<bar> \<le> 8 / 2 ^ 53 \<and> 0 \<le> s4 \<and> s4 \<le> 1"
    unfolding c4_def s4_def
    using fstep_err [of c3 s3 6 "17 / 20" "15 / 100" "s = ScopeModule"] h3 by simp
  have h5: "\<bar>c5 - s5\<bar> \<le> 10 / 2 ^ 53 \<and> 0 \<le> s5 \<and> s5 \<le> 6 / 5"
    unfolding c5_def s5_def
    using fstep_err [of c4 s4 8 1 "2 / 10" t4] h4 by simp
  have h6: "\<bar>c6 - s6\<bar> \<le> 12 / 2 ^ 53 \<and> 0 \<le> s6 \<and> s6 \<le> 29 / 20"
    unfolding c6_def s6_def
    using fstep_err [of c5 s5 10 "6 / 5" "25 / 100" t5] h5 by simp
  have h7: "\<bar>c7 - s7\<bar> \<le> 14 / 2 ^ 53 \<and> 0 \<le> s7 \<and> s7 \<le> 33 / 20"
    unfolding c7_def s7_def
    using fstep_err [of c6 s6 12 "29 / 20" "2 / 10" t6] h6 by simp
  have h8: "\<bar>c8 - s8\<bar> \<le> 16 / 2 ^ 53"
    unfolding c8_def s8_def
    using fstep_err [of c7 s7 14 "33 / 20" "15 / 100" t7] h7 by simp
  have r: "raw7 t1 t2 s t4 t5 t6 t7 = c8"
    by (simp add: raw7_def c8_def c7_def c6_def c5_def c4_def c3_def c2_def c1_def)
  have u: "of_int (units7 t1 t2 s t4 t5 t6 t7) / 20 = s8"
    by (cases s)
       (simp_all add: units7_def s8_def s7_def s6_def s5_def s4_def s3_def s2_def s1_def
          estep_def)
  show ?thesis using h8 unfolding r u by simp
qed

lemma to_double_nonneg: "0 \<le> q \<Longrightarrow> 0 \<le> to_double q"
proof -
  assume q: "0 \<le> q"
  have "0 \<le> round_ties_even x" if "0 \<le> x" for x
  proof -
    have "0 \<le> \<lfloor>x\<rfloor>" using that by simp
    then show ?thesis by (simp add: round_ties_even_def Let_def)
  qed
  then show ?thesis using q by (simp add: to_double_def Let_def)
qed

lemma fstep_nonneg: "0 \<le> c \<Longrightarrow> 0 \<le> w \<Longrightarrow> 0 \<le> fstep t w c"
  by (simp add: fstep_def fadd_def to_double_nonneg)

lemma raw7_nonneg: "0 \<le> raw7 t1 t2 s t4 t5 t6 t7"
  unfolding raw7_def by (intro fstep_nonneg) simp_all

lemma sum_25_15: "to_double (1 / 4 + 5404319552844595 / 2 ^ 55) = 3602879701896397 / 2 ^ 53"
  using to_double_eqI [of "-2" "1 / 4 + 5404319552844595 / 2 ^ 55" 7205759403792794]
  by (simp add: power_int_minus)

lemma sum_20_20:
  "to_double (3602879701896397 / 2 ^ 54 + 3602879701896397 / 2 ^ 54) = 3602879701896397 / 2 ^ 53"
  using to_double_eqI [of "-2" "3602879701896397 / 2 ^ 54 + 3602879701896397 / 2 ^ 54"
      7205759403792794]
  by (simp add: power_int_minus)

lemma sum_15_15:
  "to_double (5404319552844595 / 2 ^ 55 + 5404319552844595 / 2 ^ 55) = 5404319552844595 / 2 ^ 54"
  using to_double_eqI [of "-2" "5404319552844595 / 2 ^ 55 + 5404319552844595 / 2 ^ 55"
      5404319552844595]
  by (simp add: power_int_minus)

lemma same_15: "to_double (5404319552844595 / 2 ^ 55) = 5404319552844595 / 2 ^ 55"
  using to_double_eqI [of "-3" "5404319552844595 / 2 ^ 55" 5404319552844595]
  by (simp add: power_int_minus)

lemma same_20: "to_double (3602879701896397 / 2 ^ 54) = 3602879701896397 / 2 ^ 54"
  using to_double_eqI [of "-3" "3602879701896397 / 2 ^ 54" 7205759403792794]
  by (simp add: power_int_minus)

lemma same_25: "to_double (1 / 4) = 1 / 4"
  using to_double_eqI [of "-2" "1 / 4" 4503599627370496]
  by (simp add: power_int_minus)

lemma fadd_zero_15: "fadd 0 (to_double (15 / 100)) = to_double (15 / 100)"
  unfolding fadd_def d15 using same_15 by simp
lemma fadd_zero_20: "fadd 0 (to_double (2 / 10)) = to_double (2 / 10)"
  unfolding fadd_def d20 using same_20 by simp
lemma fadd_zero_25: "fadd 0 (to_double (25 / 100)) = to_double (25 / 100)"
  unfolding fadd_def d25 using same_25 by simp
lemma fadd_25_15: "fadd (to_double (25 / 100)) (to_double (15 / 100)) = to_double (4 / 10)"
  unfolding fadd_def d25 d15 d40 by (rule sum_25_15)
lemma fadd_15_25: "fadd (to_double (15 / 100)) (to_double (25 / 100)) = to_double (4 / 10)"
  unfolding fadd_def d25 d15 d40 using sum_25_15 by (simp only: add.commute)
lemma fadd_20_20: "fadd (to_double (2 / 10)) (to_double (2 / 10)) = to_double (4 / 10)"
  unfolding fadd_def d20 d40 by (rule sum_20_20)
lemma fadd_15_15: "fadd (to_double (15 / 100)) (to_double (15 / 100)) = to_double (3 / 10)"
  unfolding fadd_def d15 d30 by (rule sum_15_15)

lemmas fadd_exact = fadd_zero_15 fadd_zero_20 fadd_zero_25 fadd_25_15 fadd_15_25 fadd_20_20
  fadd_15_15


lemma raw7_concepts_module:
  "raw7 False True ScopeModule False False False False = to_double (4 / 10)"
  by (simp only: raw7_def fstep_def if_True if_False Scope.distinct simp_thms fadd_exact)

lemma raw7_concepts_config:
  "raw7 False True ScopeFile False False False True = to_double (4 / 10)"
  by (simp only: raw7_def fstep_def if_True if_False Scope.distinct simp_thms fadd_exact)

lemma raw7_module_patterns:
  "raw7 False False ScopeModule False True False False = to_double (4 / 10)"
  by (simp only: raw7_def fstep_def if_True if_False Scope.distinct simp_thms fadd_exact)

lemma raw7_patterns_config:
  "raw7 False False ScopeFile False True False True = to_double (4 / 10)"
  by (simp only: raw7_def fstep_def if_True if_False Scope.distinct simp_thms fadd_exact)

lemma raw7_dependents_breaking:
  "raw7 False False ScopeFile True False True False = to_double (4 / 10)"
  by (simp only: raw7_def fstep_def if_True if_False Scope.distinct simp_thms fadd_exact)

lemma raw7_dependents: "raw7 False False ScopeFile True False False False = to_double (2 / 10)"
  by (simp only: raw7_def fstep_def if_True if_False Scope.distinct simp_thms fadd_exact)

lemma raw7_breaking: "raw7 False False ScopeFile False False True False = to_double (2 / 10)"
  by (simp only: raw7_def fstep_def if_True if_False Scope.distinct simp_thms fadd_exact)

lemma raw7_module: "raw7 False False ScopeModule False False False False = to_double (15 / 100)"
  by (simp only: raw7_def fstep_def if_True if_False Scope.distinct simp_thms fadd_exact)

lemma raw7_config: "raw7 False False ScopeFile False False False True = to_double (15 / 100)"
  by (simp only: raw7_def fstep_def if_True if_False Scope.distinct simp_thms fadd_exact)

lemma raw7_module_config:
  "raw7 False False ScopeModule False False False True = to_double (3 / 10)"
  by (simp only: raw7_def fstep_def if_True if_False Scope.distinct simp_thms fadd_exact)

lemma raw7_nothing: "raw7 False False ScopeFile False False False False = 0"
  by (simp only: raw7_def fstep_def if_True if_False Scope.distinct simp_thms)

lemma units7_eq_8:
  assumes "units7 t1 t2 s t4 t5 t6 t7 = 8"
  shows "(\<not> t1 \<and> t2 \<and> s = ScopeModule \<and> \<not> t4 \<and> \<not> t5 \<and> \<not> t6 \<and> \<not> t7)
       \<or> (\<not> t1 \<and> t2 \<and> s = ScopeFile \<and> \<not> t4 \<and> \<not> t5 \<and> \<not> t6 \<and> t7)
       \<or> (\<not> t1 \<and> \<not> t2 \<and> s = ScopeModule \<and> \<not> t4 \<and> t5 \<and> \<not> t6 \<and> \<not> t7)
       \<or> (\<not> t1 \<and> \<not> t2 \<and> s = ScopeFile \<and> \<not> t4 \<and> t5 \<and> \<not> t6 \<and> t7)
       \<or> (\<not> t1 \<and> \<not> t2 \<and> s = ScopeFile \<and> t4 \<and> \<not> t5 \<and> t6 \<and> \<not> t7)"
  using assms by (cases s) (simp_all add: units7_def split: if_splits)

lemma units7_eq_4:
  assumes "units7 t1 t2 s t4 t5 t6 t7 = 4"
  shows "(\<not> t1 \<and> \<not> t2 \<and> s = ScopeFile \<and> t4 \<and> \<not> t5 \<and> \<not> t6 \<and> \<not> t7)
       \<or> (\<not> t1 \<and> \<not> t2 \<and> s = ScopeFile \<and> \<not> t4 \<and> \<not> t5 \<and> t6 \<and> \<not> t7)"
  using assms by (cases s) (simp_all add: units7_def split: if_splits)

lemma raw7_at_8_units:
  assumes "units7 t1 t2 s t4 t5 t6 t7 = 8"
  shows "raw7 t1 t2 s t4 t5 t6 t7 = to_double (4 / 10)"
  using units7_eq_8 [OF assms]
  by (elim disjE conjE)
     (simp_all add: raw7_concepts_module raw7_concepts_config raw7_module_patterns
        raw7_patterns_config raw7_dependents_breaking)

lemma raw7_at_4_units:
  assumes "units7 t1 t2 s t4 t5 t6 t7 = 4"
  shows "raw7 t1 t2 s t4 t5 t6 t7 = to_double (2 / 10)"
  using units7_eq_4 [OF assms]
  by (elim disjE conjE) (simp_all add: raw7_dependents raw7_breaking)

lemma raw7_between:
  "of_int (units7 t1 t2 s t4 t5 t6 t7) / 20 - 1 / 2 ^ 49 \<le> raw7 t1 t2 s t4 t5 t6 t7"
  "raw7 t1 t2 s t4 t5 t6 t7 \<le> of_int (units7 t1 t2 s t4 t5 t6 t7) / 20 + 1 / 2 ^ 49"
  using raw7_error [of t1 t2 s t4 t5 t6 t7] by linarith+

lemma raw7_ge_40: "(to_double (4 / 10) \<le> raw7 t1 t2 s t4 t5 t6 t7) = (8 \<le> units7 t1 t2 s t4 t5 t6 t7)"
proof -
  let ?u = "units7 t1 t2 s t4 t5 t6 t7" and ?r = "raw7 t1 t2 s t4 t5 t6 t7"
  consider "?u \<le> 7" | "?u = 8" | "9 \<le> ?u" by linarith
  then show ?thesis
  proof cases
    case 1
    then have "(of_int ?u :: rat) \<le> of_int 7" by (simp only: of_int_le_iff)
    then have "(of_int ?u :: rat) / 20 + 1 / 2 ^ 49 \<le> 7 / 20 + 1 / 2 ^ 49" by simp
    also have "\<dots> < 3602879701896397 / 2 ^ 53" by simp
    finally have "?r < to_double (4 / 10)"
      unfolding d40 using raw7_between(2) [of t1 t2 s t4 t5 t6 t7] by linarith
    then show ?thesis using 1 by simp
  next
    case 2
    then show ?thesis using raw7_at_8_units [OF 2] by simp
  next
    case 3
    then have "(of_int 9 :: rat) \<le> of_int ?u" by (simp only: of_int_le_iff)
    then have "(9 :: rat) / 20 - 1 / 2 ^ 49 \<le> of_int ?u / 20 - 1 / 2 ^ 49" by simp
    moreover have "(3602879701896397 :: rat) / 2 ^ 53 \<le> 9 / 20 - 1 / 2 ^ 49" by simp
    ultimately have "to_double (4 / 10) \<le> ?r"
      unfolding d40 using raw7_between(1) [of t1 t2 s t4 t5 t6 t7] by linarith
    then show ?thesis using 3 by simp
  qed
qed

lemma raw7_ge_20: "(to_double (2 / 10) \<le> raw7 t1 t2 s t4 t5 t6 t7) = (4 \<le> units7 t1 t2 s t4 t5 t6 t7)"
proof -
  let ?u = "units7 t1 t2 s t4 t5 t6 t7" and ?r = "raw7 t1 t2 s t4 t5 t6 t7"
  consider "?u \<le> 3" | "?u = 4" | "5 \<le> ?u" by linarith
  then show ?thesis
  proof cases
    case 1
    then have "(of_int ?u :: rat) \<le> of_int 3" by (simp only: of_int_le_iff)
    then have "(of_int ?u :: rat) / 20 + 1 / 2 ^ 49 \<le> 3 / 20 + 1 / 2 ^ 49" by simp
    also have "\<dots> < 3602879701896397 / 2 ^ 54" by simp
    finally have "?r < to_double (2 / 10)"
      unfolding d20 using raw7_between(2) [of t1 t2 s t4 t5 t6 t7] by linarith
    then show ?thesis using 1 by simp
  next
    case 2
    then show ?thesis using raw7_at_4_units [OF 2] by simp
  next
    case 3
    then have "(of_int 5 :: rat) \<le> of_int ?u" by (simp only: of_int_le_iff)
    then have "(5 :: rat) / 20 - 1 / 2 ^ 49 \<le> of_int ?u / 20 - 1 / 2 ^ 49" by simp
    moreover have "(3602879701896397 :: rat) / 2 ^ 54 \<le> 5 / 20 - 1 / 2 ^ 49" by simp
    ultimately have "to_double (2 / 10) \<le> ?r"
      unfolding d20 using raw7_between(1) [of t1 t2 s t4 t5 t6 t7] by linarith
    then show ?thesis using 3 by simp
  qed
qed

lemma raw7_ge_exact_40:
  "(4 / 10 \<le> raw7 t1 t2 s t4 t5 t6 t7) = (8 \<le> units7 t1 t2 s t4 t5 t6 t7)"
proof
  assume "8 \<le> units7 t1 t2 s t4 t5 t6 t7"
  then have "to_double (4 / 10) \<le> raw7 t1 t2 s t4 t5 t6 t7" by (simp only: raw7_ge_40)
  then show "4 / 10 \<le> raw7 t1 t2 s t4 t5 t6 t7" unfolding d40 by simp
next
  let ?u = "units7 t1 t2 s t4 t5 t6 t7"
  assume r: "4 / 10 \<le> raw7 t1 t2 s t4 t5 t6 t7"
  show "8 \<le> ?u"
  proof (rule ccontr)
    assume "\<not> 8 \<le> ?u"
    then have "?u \<le> 7" by simp
    then have "(of_int ?u :: rat) \<le> of_int 7" by (simp only: of_int_le_iff)
    then have "(of_int ?u :: rat) / 20 + 1 / 2 ^ 49 \<le> 7 / 20 + 1 / 2 ^ 49" by simp
    also have "\<dots> < 4 / 10" by simp
    finally show False using raw7_between(2) [of t1 t2 s t4 t5 t6 t7] r by linarith
  qed
qed

lemma raw7_ge_exact_20:
  "(2 / 10 \<le> raw7 t1 t2 s t4 t5 t6 t7) = (4 \<le> units7 t1 t2 s t4 t5 t6 t7)"
proof
  assume "4 \<le> units7 t1 t2 s t4 t5 t6 t7"
  then have "to_double (2 / 10) \<le> raw7 t1 t2 s t4 t5 t6 t7" by (simp only: raw7_ge_20)
  then show "2 / 10 \<le> raw7 t1 t2 s t4 t5 t6 t7" unfolding d20 by simp
next
  let ?u = "units7 t1 t2 s t4 t5 t6 t7"
  assume r: "2 / 10 \<le> raw7 t1 t2 s t4 t5 t6 t7"
  show "4 \<le> ?u"
  proof (rule ccontr)
    assume "\<not> 4 \<le> ?u"
    then have "?u \<le> 3" by simp
    then have "(of_int ?u :: rat) \<le> of_int 3" by (simp only: of_int_le_iff)
    then have "(of_int ?u :: rat) / 20 + 1 / 2 ^ 49 \<le> 3 / 20 + 1 / 2 ^ 49" by simp
    also have "\<dots> < 2 / 10" by simp
    finally show False using raw7_between(2) [of t1 t2 s t4 t5 t6 t7] r by linarith
  qed
qed

lemma raw7_gap:
  assumes "units7 t1 t2 s t4 t5 t6 t7 + 1 \<le> units7 t1' t2' s' t4' t5' t6' t7'"
  shows "raw7 t1 t2 s t4 t5 t6 t7 \<le> raw7 t1' t2' s' t4' t5' t6' t7'"
proof -
  let ?u = "units7 t1 t2 s t4 t5 t6 t7" and ?u' = "units7 t1' t2' s' t4' t5' t6' t7'"
  have "(of_int (?u + 1) :: rat) \<le> of_int ?u'" using assms by (simp only: of_int_le_iff)
  then have "(of_int ?u :: rat) / 20 + 1 / 20 \<le> of_int ?u' / 20" by simp
  moreover have "(2::rat) / 2 ^ 49 \<le> 1 / 20" by simp
  ultimately show ?thesis
    using raw7_between(2) [of t1 t2 s t4 t5 t6 t7] raw7_between(1) [of t1' t2' s' t4' t5' t6' t7']
    by linarith
qed

lemma raw7_mono1: "(t1 \<longrightarrow> t1') \<Longrightarrow> raw7 t1 t2 s t4 t5 t6 t7 \<le> raw7 t1' t2 s t4 t5 t6 t7"
  by (cases t1; cases t1') (auto intro!: raw7_gap simp: units7_def)

lemma raw7_mono2: "(t2 \<longrightarrow> t2') \<Longrightarrow> raw7 t1 t2 s t4 t5 t6 t7 \<le> raw7 t1 t2' s t4 t5 t6 t7"
  by (cases t2; cases t2') (auto intro!: raw7_gap simp: units7_def)

lemma raw7_mono3:
  "scope_rank s \<le> scope_rank s' \<Longrightarrow> raw7 t1 t2 s t4 t5 t6 t7 \<le> raw7 t1 t2 s' t4 t5 t6 t7"
  by (cases s; cases s') (auto intro!: raw7_gap simp: units7_def scope_rank_def)

lemma raw7_mono4: "(t4 \<longrightarrow> t4') \<Longrightarrow> raw7 t1 t2 s t4 t5 t6 t7 \<le> raw7 t1 t2 s t4' t5 t6 t7"
  by (cases t4; cases t4') (auto intro!: raw7_gap simp: units7_def)

lemma raw7_mono5: "(t5 \<longrightarrow> t5') \<Longrightarrow> raw7 t1 t2 s t4 t5 t6 t7 \<le> raw7 t1 t2 s t4 t5' t6 t7"
  by (cases t5; cases t5') (auto intro!: raw7_gap simp: units7_def)

lemma raw7_mono6: "(t6 \<longrightarrow> t6') \<Longrightarrow> raw7 t1 t2 s t4 t5 t6 t7 \<le> raw7 t1 t2 s t4 t5 t6' t7"
  by (cases t6; cases t6') (auto intro!: raw7_gap simp: units7_def)

lemma raw7_mono7: "(t7 \<longrightarrow> t7') \<Longrightarrow> raw7 t1 t2 s t4 t5 t6 t7 \<le> raw7 t1 t2 s t4 t5 t6 t7'"
  by (cases t7; cases t7') (auto intro!: raw7_gap simp: units7_def)

lemma raw7_mono:
  assumes "t1 \<longrightarrow> t1'" "t2 \<longrightarrow> t2'" "scope_rank s \<le> scope_rank s'" "t4 \<longrightarrow> t4'" "t5 \<longrightarrow> t5'"
    "t6 \<longrightarrow> t6'" "t7 \<longrightarrow> t7'"
  shows "raw7 t1 t2 s t4 t5 t6 t7 \<le> raw7 t1' t2' s' t4' t5' t6' t7'"
proof -
  have "raw7 t1 t2 s t4 t5 t6 t7 \<le> raw7 t1' t2 s t4 t5 t6 t7"
    using assms(1) by (rule raw7_mono1)
  also have "\<dots> \<le> raw7 t1' t2' s t4 t5 t6 t7" using assms(2) by (rule raw7_mono2)
  also have "\<dots> \<le> raw7 t1' t2' s' t4 t5 t6 t7" using assms(3) by (rule raw7_mono3)
  also have "\<dots> \<le> raw7 t1' t2' s' t4' t5 t6 t7" using assms(4) by (rule raw7_mono4)
  also have "\<dots> \<le> raw7 t1' t2' s' t4' t5' t6 t7" using assms(5) by (rule raw7_mono5)
  also have "\<dots> \<le> raw7 t1' t2' s' t4' t5' t6' t7" using assms(6) by (rule raw7_mono6)
  also have "\<dots> \<le> raw7 t1' t2' s' t4' t5' t6' t7'" using assms(7) by (rule raw7_mono7)
  finally show ?thesis .
qed

lemma rawConfidence_mono:
  assumes "length (affectedFiles a) \<le> length (affectedFiles b)"
    and "length (affectedConcepts a) \<le> length (affectedConcepts b)"
    and "scope_rank (scope a) \<le> scope_rank (scope b)"
    and "dependentsCount a \<le> dependentsCount b"
    and "length (patternChanges a) \<le> length (patternChanges b)"
    and "breakingChanges a \<longrightarrow> breakingChanges b"
    and "configurationChanges a \<longrightarrow> configurationChanges b"
  shows "rawConfidence a \<le> rawConfidence b"
  unfolding rawConfidence_raw7 using assms by (intro raw7_mono) auto

lemma digit_char_code: "d < 10 \<Longrightarrow> of_char (digit_char d) = 48 + d"
proof -
  assume "d < 10"
  then have "d = 0 \<or> d = 1 \<or> d = 2 \<or> d = 3 \<or> d = 4 \<or> d = 5 \<or> d = 6 \<or> d = 7 \<or> d = 8 \<or> d = 9"
    by arith
  then show ?thesis by (elim disjE) (simp_all add: digit_char_def)
qed

lemma nat_to_string_decimal:
  "foldl (\<lambda>v c. 10 * v + (of_char c - 48)) 0 (nat_to_string n) = n"
proof (induction n rule: nat_to_string.induct)
  case (1 n)
  show ?case
  proof (cases "n < 10")
    case True
    then show ?thesis by (subst nat_to_string.simps) (simp add: digit_char_code)
  next
    case False
    have "n mod 10 < 10" by simp
    then have d: "of_char (digit_char (n mod 10)) = 48 + n mod 10" by (rule digit_char_code)
    show ?thesis using False 1 d by (subst nat_to_string.simps) simp
  qed
qed


section \<open>Properties of the scorer\<close>

lemma foldl_filter_row:
  "foldl (\<lambda>st (t, w, r). trigger r w st) st (filter (\<lambda>(t, w, r). t) ((t, w, r) # rows))
   = foldl (\<lambda>st (t, w, r). trigger r w st) (cstep t w r st)
       (filter (\<lambda>(t, w, r). t) rows)"
  by (simp add: cstep_def)

lemma criterion1_cstep:
  "criterion1 a st = cstep (length (affectedFiles a) \<ge> 3) (30 / 100)
     (''Affects '' @ nat_to_string (length (affectedFiles a)) @ '' files'') st"
  by (simp add: criterion1_def cstep_def)

lemma criterion2_cstep:
  "criterion2 a st = cstep (length (affectedConcepts a) \<ge> 10) (25 / 100)
     (''Affects '' @ nat_to_string (length (affectedConcepts a)) @ '' semantic concepts'') st"
  by (simp add: criterion2_def cstep_def)

lemma criterion3_cstep:
  "criterion3 a st = cstep (scope a = ScopeModule) (15 / 100) ''Module-wide scope detected''
     (cstep (scope a = ScopeProject) (30 / 100) ''Project-wide scope detected'' st)"
  by (cases "scope a") (simp_all add: criterion3_def cstep_def)

lemma criterion4_cstep:
  "criterion4 a st = cstep (dependentsCount a \<ge> 5) (20 / 100)
     (''Affects '' @ number_to_string (dependentsCount a) @ '' dependent files'') st"
  by (simp add: criterion4_def cstep_def)

lemma criterion5_cstep:
  "criterion5 a st = cstep (length (patternChanges a) > 0) (25 / 100)
     (''Introduces '' @ nat_to_string (length (patternChanges a)) @ '' pattern changes'') st"
  by (simp add: criterion5_def cstep_def)

lemma criterion6_cstep:
  "criterion6 a st = cstep (breakingChanges a) (20 / 100) ''Contains breaking changes'' st"
  by (simp add: criterion6_def cstep_def)

lemma criterion7_cstep:
  "criterion7 a st
     = cstep (configurationChanges a) (15 / 100) ''Modifies project configuration'' st"
  by (simp add: criterion7_def cstep_def)

lemma run_criteria_table:
  "run_criteria a =
     foldl (\<lambda>st (t, w, r). trigger r w st) \<lparr>reasons_acc = [], confidence_acc = 0\<rparr>
       (triggeredCriteria a)"
  unfolding triggeredCriteria_def criteriaTable_def foldl_filter_row run_criteria_def
    criterion1_cstep criterion2_cstep criterion3_cstep criterion4_cstep criterion5_cstep
    criterion6_cstep criterion7_cstep
  by simp

lemma foldl_trigger_reasons:
  "reasons_acc (foldl (\<lambda>st (t, w, r). trigger r w st) st0 rows)
     = reasons_acc st0 @ map (\<lambda>(t, w, r). r) rows"
  by (induction rows arbitrary: st0) (auto simp: trigger_def)

lemma foldl_trigger_confidence:
  "confidence_acc (foldl (\<lambda>st (t, w, r). trigger r w st) st0 rows)
     = foldl (\<lambda>c (t, w, r). fadd c (to_double w)) (confidence_acc st0) rows"
  by (induction rows arbitrary: st0) (auto simp: trigger_def)

lemma reasons_assess: "reasons (assessArchitecturalDecision a) = reasons_acc (run_criteria a)"
  by (simp add: assessArchitecturalDecision_def Let_def)

text \<open>
  C2. The function evaluates the criteria in the order of the table: files (0.30), concepts
  (0.25), project scope (0.30) or else module scope (0.15), dependents (0.20), pattern changes
  (0.25), breaking changes (0.20), configuration changes (0.15). The running confidence is the
  left-to-right rounded sum of the weights of the triggered rows. The reasons returned are the
  reason texts of the triggered rows, one per row and in table order; the texts embed the
  decimal rendering of the actual count, which for the dependents row is stated for counts
  below \<open>2 ^ 53\<close> (a count below 5 is never rendered).
\<close>

theorem criteria_in_table_order:
  "rawConfidence a
       = foldl (\<lambda>c (t, w, r). fadd c (to_double w)) 0 (triggeredCriteria a)
   \<and> triggeredCriteria a = filter (\<lambda>(t, w, r). t) (criteriaTable a)
   \<and> map (\<lambda>(t, w, r). (t, w)) (criteriaTable a) =
       [(length (affectedFiles a) \<ge> 3, 30 / 100),
        (length (affectedConcepts a) \<ge> 10, 25 / 100),
        (scope a = ScopeProject, 30 / 100),
        (scope a = ScopeModule, 15 / 100),
        (dependentsCount a \<ge> 5, 20 / 100),
        (length (patternChanges a) > 0, 25 / 100),
        (breakingChanges a, 20 / 100),
        (configurationChanges a, 15 / 100)]
   \<and> ((5 \<le> dependentsCount a \<longrightarrow> dependentsCount a < 2 ^ 53) \<longrightarrow>
        reasons (assessArchitecturalDecision a) = map (\<lambda>(t, w, r). r) (triggeredCriteria a)
        \<and> criteriaTable a =
       [(length (affectedFiles a) \<ge> 3, 30 / 100,
           ''Affects '' @ nat_to_string (length (affectedFiles a)) @ '' files''),
        (length (affectedConcepts a) \<ge> 10, 25 / 100,
           ''Affects '' @ nat_to_string (length (affectedConcepts a)) @ '' semantic concepts''),
        (scope a = ScopeProject, 30 / 100, ''Project-wide scope detected''),
        (scope a = ScopeModule, 15 / 100, ''Module-wide scope detected''),
        (dependentsCount a \<ge> 5, 20 / 100,
           ''Affects '' @ number_to_string (dependentsCount a) @ '' dependent files''),
        (length (patternChanges a) > 0, 25 / 100,
           ''Introduces '' @ nat_to_string (length (patternChanges a)) @ '' pattern changes''),
        (breakingChanges a, 20 / 100, ''Contains breaking changes''),
        (configurationChanges a, 15 / 100, ''Modifies project configuration'')])
   \<and> foldl (\<lambda>v c. 10 * v + (of_char c - 48)) 0 (nat_to_string n) = n"
proof (intro conjI impI)
  show "reasons (assessArchitecturalDecision a) = map (\<lambda>(t, w, r). r) (triggeredCriteria a)"
    unfolding reasons_assess run_criteria_table foldl_trigger_reasons by simp
  show "rawConfidence a
       = foldl (\<lambda>c (t, w, r). fadd c (to_double w)) 0 (triggeredCriteria a)"
    unfolding rawConfidence_def run_criteria_table foldl_trigger_confidence by simp
  show "triggeredCriteria a = filter (\<lambda>(t, w, r). t) (criteriaTable a)"
    by (rule triggeredCriteria_def)
  show "map (\<lambda>(t, w, r). (t, w)) (criteriaTable a) =
       [(length (affectedFiles a) \<ge> 3, 30 / 100),
        (length (affectedConcepts a) \<ge> 10, 25 / 100),
        (scope a = ScopeProject, 30 / 100),
        (scope a = ScopeModule, 15 / 100),
        (dependentsCount a \<ge> 5, 20 / 100),
        (length (patternChanges a) > 0, 25 / 100),
        (breakingChanges a, 20 / 100),
        (configurationChanges a, 15 / 100)]"
    by (simp add: criteriaTable_def)
  show "criteriaTable a =
       [(length (affectedFiles a) \<ge> 3, 30 / 100,
           ''Affects '' @ nat_to_string (length (affectedFiles a)) @ '' files''),
        (length (affectedConcepts a) \<ge> 10, 25 / 100,
           ''Affects '' @ nat_to_string (length (affectedConcepts a)) @ '' semantic concepts''),
        (scope a = ScopeProject, 30 / 100, ''Project-wide scope detected''),
        (scope a = ScopeModule, 15 / 100, ''Module-wide scope detected''),
        (dependentsCount a \<ge> 5, 20 / 100,
           ''Affects '' @ number_to_string (dependentsCount a) @ '' dependent files''),
        (length (patternChanges a) > 0, 25 / 100,
           ''Introduces '' @ nat_to_string (length (patternChanges a)) @ '' pattern changes''),
        (breakingChanges a, 20 / 100, ''Contains breaking changes''),
        (configurationChanges a, 15 / 100, ''Modifies project configuration'')]"
    by (rule criteriaTable_def)
  show "foldl (\<lambda>v c. 10 * v + (of_char c - 48)) 0 (nat_to_string n) = n"
    by (rule nat_to_string_decimal)
qed

theorem criteria_in_table_order_witness:
  "5 \<le> dependentsCount (analysis_of 3 0 ScopeModule 0 7 False True)
   \<and> dependentsCount (analysis_of 3 0 ScopeModule 0 7 False True) < 2 ^ 53
   \<and> reasons (assessArchitecturalDecision (analysis_of 3 0 ScopeModule 0 7 False True))
       = [''Affects 3 files'', ''Module-wide scope detected'', ''Affects 7 dependent files'',
          ''Modifies project configuration'']"
proof -
  have d: "5 \<le> dependentsCount (analysis_of 3 0 ScopeModule 0 7 False True)"
    "dependentsCount (analysis_of 3 0 ScopeModule 0 7 False True) < 2 ^ 53"
    by (simp_all add: analysis_of_def)
  have t: "map (\<lambda>(t, w, r). r) (triggeredCriteria (analysis_of 3 0 ScopeModule 0 7 False True))
      = [''Affects 3 files'', ''Module-wide scope detected'', ''Affects 7 dependent files'',
          ''Modifies project configuration'']"
    by (simp add: triggeredCriteria_def criteriaTable_def analysis_of_def number_to_string_def
        nat_to_string.simps digit_char_def)
  from criteria_in_table_order [of "analysis_of 3 0 ScopeModule 0 7 False True"] d
  have "reasons (assessArchitecturalDecision (analysis_of 3 0 ScopeModule 0 7 False True))
      = map (\<lambda>(t, w, r). r) (triggeredCriteria (analysis_of 3 0 ScopeModule 0 7 False True))"
    by blast
  with d t show ?thesis by simp
qed

text \<open>
  C1. isArchitectural holds iff the confidence before clamping is at least 0.4; the
  recommendation is record iff isArchitectural, \<open>use_project_decision\<close> iff not architectural and
  the confidence before clamping is at least 0.2, and skip otherwise. Comparing with the
  double nearest to 0.4 (or 0.2), as the code does, and comparing with the exact decimal give
  the same answer on every input.
\<close>

theorem threshold_rule:
  "isArchitectural (assessArchitecturalDecision a) = (to_double (4 / 10) \<le> rawConfidence a)
   \<and> isArchitectural (assessArchitecturalDecision a) = (4 / 10 \<le> rawConfidence a)
   \<and> (recommendation (assessArchitecturalDecision a) = Rec_record)
       = isArchitectural (assessArchitecturalDecision a)
   \<and> (recommendation (assessArchitecturalDecision a) = Rec_use_project_decision)
       = (\<not> isArchitectural (assessArchitecturalDecision a)
          \<and> to_double (2 / 10) \<le> rawConfidence a)
   \<and> (to_double (2 / 10) \<le> rawConfidence a) = (2 / 10 \<le> rawConfidence a)
   \<and> (recommendation (assessArchitecturalDecision a) = Rec_skip)
       = (\<not> isArchitectural (assessArchitecturalDecision a)
          \<and> \<not> to_double (2 / 10) \<le> rawConfidence a)"
proof -
  have e4: "(to_double (4 / 10) \<le> rawConfidence a) = (4 / 10 \<le> rawConfidence a)"
    unfolding rawConfidence_raw7 raw7_ge_40 raw7_ge_exact_40 by (rule refl)
  have e2: "(to_double (2 / 10) \<le> rawConfidence a) = (2 / 10 \<le> rawConfidence a)"
    unfolding rawConfidence_raw7 raw7_ge_20 raw7_ge_exact_20 by (rule refl)
  have i: "isArchitectural (assessArchitecturalDecision a)
      = (to_double (4 / 10) \<le> rawConfidence a)"
    by (simp add: assessArchitecturalDecision_def rawConfidence_def Let_def)
  have r: "recommendation (assessArchitecturalDecision a)
      = (if to_double (4 / 10) \<le> rawConfidence a then Rec_record
         else if to_double (2 / 10) \<le> rawConfidence a then Rec_use_project_decision
         else Rec_skip)"
    by (simp add: assessArchitecturalDecision_def rawConfidence_def Let_def)
  show ?thesis using e4 e2 unfolding i r by simp
qed

lemma isArchitectural_units:
  "isArchitectural (assessArchitecturalDecision a) = (4 / 10 \<le> listedWeightSum a)"
proof -
  have "isArchitectural (assessArchitecturalDecision a)
      = (to_double (4 / 10) \<le> rawConfidence a)"
    by (simp add: assessArchitecturalDecision_def rawConfidence_def Let_def)
  also have "\<dots> = (4 / 10 \<le> listedWeightSum a)"
    unfolding rawConfidence_raw7 raw7_ge_40 listedWeightSum_units7 by simp
  finally show ?thesis .
qed

lemma recommendation_units:
  "recommendation (assessArchitecturalDecision a)
     = (if 4 / 10 \<le> listedWeightSum a then Rec_record
        else if 2 / 10 \<le> listedWeightSum a then Rec_use_project_decision
        else Rec_skip)"
proof -
  have "recommendation (assessArchitecturalDecision a)
      = (if to_double (4 / 10) \<le> rawConfidence a then Rec_record
         else if to_double (2 / 10) \<le> rawConfidence a then Rec_use_project_decision
         else Rec_skip)"
    by (simp add: assessArchitecturalDecision_def rawConfidence_def Let_def)
  also have "\<dots> = (if 4 / 10 \<le> listedWeightSum a then Rec_record
        else if 2 / 10 \<le> listedWeightSum a then Rec_use_project_decision
        else Rec_skip)"
    unfolding rawConfidence_raw7 raw7_ge_40 raw7_ge_20 listedWeightSum_units7 by simp
  finally show ?thesis .
qed

text \<open>
  C3. Whenever the listed weights of the triggered criteria add up to exactly 0.4, whichever
  criteria they are, the result is architectural with recommendation record; when they add up
  to exactly 0.2, the recommendation is \<open>use_project_decision\<close>; below 0.2 it is skip. The same
  holds when the rounded running sum equals the double 0.4 or the double 0.2.
\<close>

theorem threshold_exactness:
  "(listedWeightSum a = 4 / 10 \<longrightarrow>
      isArchitectural (assessArchitecturalDecision a)
      \<and> recommendation (assessArchitecturalDecision a) = Rec_record)
   \<and> (listedWeightSum a = 2 / 10 \<longrightarrow>
      \<not> isArchitectural (assessArchitecturalDecision a)
      \<and> recommendation (assessArchitecturalDecision a) = Rec_use_project_decision)
   \<and> (listedWeightSum a < 2 / 10 \<longrightarrow>
      \<not> isArchitectural (assessArchitecturalDecision a)
      \<and> recommendation (assessArchitecturalDecision a) = Rec_skip)
   \<and> (rawConfidence a = to_double (4 / 10) \<longrightarrow>
      isArchitectural (assessArchitecturalDecision a)
      \<and> recommendation (assessArchitecturalDecision a) = Rec_record)
   \<and> (rawConfidence a = to_double (2 / 10) \<longrightarrow>
      \<not> isArchitectural (assessArchitecturalDecision a)
      \<and> recommendation (assessArchitecturalDecision a) = Rec_use_project_decision)"
proof -
  have r4: "rawConfidence a = to_double (4 / 10) \<Longrightarrow> 4 / 10 \<le> listedWeightSum a"
  proof -
    assume "rawConfidence a = to_double (4 / 10)"
    then have "to_double (4 / 10) \<le> rawConfidence a" by simp
    then show ?thesis
      unfolding rawConfidence_raw7 raw7_ge_40 listedWeightSum_units7 by simp
  qed
  have r2: "rawConfidence a = to_double (2 / 10)
      \<Longrightarrow> 2 / 10 \<le> listedWeightSum a \<and> \<not> 4 / 10 \<le> listedWeightSum a"
  proof -
    assume e: "rawConfidence a = to_double (2 / 10)"
    then have "to_double (2 / 10) \<le> rawConfidence a" by simp
    then have a: "2 / 10 \<le> listedWeightSum a"
      unfolding rawConfidence_raw7 raw7_ge_20 listedWeightSum_units7 by simp
    have "\<not> to_double (4 / 10) \<le> rawConfidence a" unfolding e d40 d20 by simp
    then have "\<not> 4 / 10 \<le> listedWeightSum a"
      unfolding rawConfidence_raw7 raw7_ge_40 listedWeightSum_units7 by simp
    with a show ?thesis by simp
  qed
  show ?thesis
    unfolding isArchitectural_units recommendation_units using r4 r2 by auto
qed

theorem threshold_exactness_witness:
  "listedWeightSum (analysis_of 0 0 ScopeFile 1 0 False True) = 4 / 10
   \<and> recommendation (assessArchitecturalDecision (analysis_of 0 0 ScopeFile 1 0 False True))
       = Rec_record
   \<and> listedWeightSum (analysis_of 0 0 ScopeFile 0 5 True False) = 4 / 10
   \<and> recommendation (assessArchitecturalDecision (analysis_of 0 0 ScopeFile 0 5 True False))
       = Rec_record
   \<and> listedWeightSum (analysis_of 0 0 ScopeFile 0 0 True False) = 2 / 10
   \<and> recommendation (assessArchitecturalDecision (analysis_of 0 0 ScopeFile 0 0 True False))
       = Rec_use_project_decision
   \<and> listedWeightSum (analysis_of 0 0 ScopeModule 0 0 False False) < 2 / 10
   \<and> recommendation (assessArchitecturalDecision (analysis_of 0 0 ScopeModule 0 0 False False))
       = Rec_skip
   \<and> rawConfidence (analysis_of 0 10 ScopeModule 0 0 False False) = to_double (4 / 10)
   \<and> recommendation (assessArchitecturalDecision (analysis_of 0 10 ScopeModule 0 0 False False))
       = Rec_record
   \<and> rawConfidence (analysis_of 0 0 ScopeFile 0 7 False False) = to_double (2 / 10)
   \<and> recommendation (assessArchitecturalDecision (analysis_of 0 0 ScopeFile 0 7 False False))
       = Rec_use_project_decision"
proof -
  have l1: "listedWeightSum (analysis_of 0 0 ScopeFile 1 0 False True) = 4 / 10"
    by (simp add: listedWeightSum_units7 units7_def analysis_of_def)
  have l2: "listedWeightSum (analysis_of 0 0 ScopeFile 0 5 True False) = 4 / 10"
    by (simp add: listedWeightSum_units7 units7_def analysis_of_def)
  have l3: "listedWeightSum (analysis_of 0 0 ScopeFile 0 0 True False) = 2 / 10"
    by (simp add: listedWeightSum_units7 units7_def analysis_of_def)
  have l4: "listedWeightSum (analysis_of 0 0 ScopeModule 0 0 False False) < 2 / 10"
    by (simp add: listedWeightSum_units7 units7_def analysis_of_def)
  have l5: "rawConfidence (analysis_of 0 10 ScopeModule 0 0 False False) = to_double (4 / 10)"
    by (simp add: rawConfidence_raw7 analysis_of_def raw7_concepts_module)
  have l6: "rawConfidence (analysis_of 0 0 ScopeFile 0 7 False False) = to_double (2 / 10)"
    by (simp add: rawConfidence_raw7 analysis_of_def raw7_dependents)
  show ?thesis
    using l1 l2 l3 l4 l5 l6
      threshold_exactness [of "analysis_of 0 0 ScopeFile 1 0 False True"]
      threshold_exactness [of "analysis_of 0 0 ScopeFile 0 5 True False"]
      threshold_exactness [of "analysis_of 0 0 ScopeFile 0 0 True False"]
      threshold_exactness [of "analysis_of 0 0 ScopeModule 0 0 False False"]
      threshold_exactness [of "analysis_of 0 10 ScopeModule 0 0 False False"]
      threshold_exactness [of "analysis_of 0 0 ScopeFile 0 7 False False"]
    by blast
qed

lemma rawConfidence_nonneg: "0 \<le> rawConfidence a"
  unfolding rawConfidence_raw7 by (rule raw7_nonneg)

lemma triggered_at_most_seven: "length (triggeredCriteria a) \<le> 7"
  by (cases "scope a") (simp_all add: triggeredCriteria_def criteriaTable_def)

text \<open>
  C4. The confidence returned is the minimum of 1 and the running sum and lies between 0 and
  1; the number of reasons is the number of triggered criteria, at most seven since the two
  scope rows exclude each other.
\<close>

theorem confidence_clamped_reasons_counted:
  "confidence (assessArchitecturalDecision a) = min 1 (rawConfidence a)
   \<and> 0 \<le> confidence (assessArchitecturalDecision a)
   \<and> confidence (assessArchitecturalDecision a) \<le> 1
   \<and> length (reasons (assessArchitecturalDecision a)) = length (triggeredCriteria a)
   \<and> length (reasons (assessArchitecturalDecision a)) \<le> 7"
proof -
  have c: "confidence (assessArchitecturalDecision a) = min 1 (rawConfidence a)"
    by (simp add: assessArchitecturalDecision_def rawConfidence_def Let_def)
  have r: "reasons (assessArchitecturalDecision a) = map (\<lambda>(t, w, r). r) (triggeredCriteria a)"
    unfolding reasons_assess run_criteria_table foldl_trigger_reasons by simp
  show ?thesis
    unfolding c r using rawConfidence_nonneg [of a] triggered_at_most_seven [of a] by simp
qed

text \<open>
  C5. If no field of \<open>b\<close> is below the same field of \<open>a\<close> (list lengths, scope in the
  order file, module, project, dependents count, flags), then the confidence for \<open>b\<close> is
  at least the confidence for \<open>a\<close>, and the recommendation for \<open>b\<close> is not below the one
  for \<open>a\<close> in the order skip, \<open>use_project_decision\<close>, record. This covers raising a single
  field across its threshold.
\<close>

theorem assess_monotone:
  assumes "length (affectedFiles a) \<le> length (affectedFiles b)"
    and "length (affectedConcepts a) \<le> length (affectedConcepts b)"
    and "scope_rank (scope a) \<le> scope_rank (scope b)"
    and "dependentsCount a \<le> dependentsCount b"
    and "length (patternChanges a) \<le> length (patternChanges b)"
    and "breakingChanges a \<longrightarrow> breakingChanges b"
    and "configurationChanges a \<longrightarrow> configurationChanges b"
  shows "confidence (assessArchitecturalDecision a) \<le> confidence (assessArchitecturalDecision b)
    \<and> recommendation_rank (recommendation (assessArchitecturalDecision a))
        \<le> recommendation_rank (recommendation (assessArchitecturalDecision b))"
proof -
  have m: "rawConfidence a \<le> rawConfidence b" using assms by (rule rawConfidence_mono)
  have c: "confidence (assessArchitecturalDecision x) = min 1 (rawConfidence x)" for x
    by (simp add: assessArchitecturalDecision_def rawConfidence_def Let_def)
  have r: "recommendation (assessArchitecturalDecision x)
      = (if to_double (4 / 10) \<le> rawConfidence x then Rec_record
         else if to_double (2 / 10) \<le> rawConfidence x then Rec_use_project_decision
         else Rec_skip)" for x
    by (simp add: assessArchitecturalDecision_def rawConfidence_def Let_def)
  have "min 1 (rawConfidence a) \<le> min 1 (rawConfidence b)" using m by simp
  moreover have "recommendation_rank (recommendation (assessArchitecturalDecision a))
        \<le> recommendation_rank (recommendation (assessArchitecturalDecision b))"
    unfolding r using m by (simp add: recommendation_rank_def)
  ultimately show ?thesis unfolding c by simp
qed

theorem assess_monotone_witness:
  "length (affectedFiles (analysis_of 3 0 ScopeFile 0 0 False False))
     \<le> length (affectedFiles (analysis_of 3 0 ScopeProject 0 0 False False))
   \<and> scope_rank (scope (analysis_of 3 0 ScopeFile 0 0 False False))
     \<le> scope_rank (scope (analysis_of 3 0 ScopeProject 0 0 False False))
   \<and> confidence (assessArchitecturalDecision (analysis_of 3 0 ScopeFile 0 0 False False))
     \<le> confidence (assessArchitecturalDecision (analysis_of 3 0 ScopeProject 0 0 False False))
   \<and> recommendation_rank
       (recommendation (assessArchitecturalDecision (analysis_of 3 0 ScopeFile 0 0 False False)))
     \<le> recommendation_rank
       (recommendation (assessArchitecturalDecision
          (analysis_of 3 0 ScopeProject 0 0 False False)))"
  using assess_monotone [of "analysis_of 3 0 ScopeFile 0 0 False False"
      "analysis_of 3 0 ScopeProject 0 0 False False"]
  by (simp add: analysis_of_def scope_rank_def)

lemma raw7_quiet:
  assumes "s \<noteq> ScopeProject"
  shows "raw7 False False s False False False t7 \<le> to_double (3 / 10)"
proof -
  have z: "(0::rat) \<le> to_double (3 / 10)" unfolding d30 by simp
  have h: "to_double (15 / 100) \<le> to_double (3 / 10)" unfolding d15 d30 by simp
  from assms consider "s = ScopeFile" "\<not> t7" | "s = ScopeFile" "t7"
    | "s = ScopeModule" "\<not> t7" | "s = ScopeModule" "t7"
    by (cases s) auto
  then show ?thesis
  proof cases
    case 1
    then show ?thesis using z by (simp only: raw7_nothing)
  next
    case 2
    then show ?thesis using h by (simp only: raw7_config)
  next
    case 3
    then show ?thesis using h by (simp only: raw7_module)
  next
    case 4
    then show ?thesis by (simp only: raw7_module_config order_refl)
  qed
qed

text \<open>
  C9. On a complete record for which the fast path answers false, only the module-scope row
  and the configuration row can trigger; the running confidence is at most 0.30, the result
  is not architectural and the recommendation is not record.
\<close>

theorem fast_path_false_bounds_score:
  assumes "isLikelyArchitectural (as_partial a) = Inr False"
  shows "triggeredCriteria a = filter (\<lambda>(t, w, r). t)
           [(scope a = ScopeModule, 15 / 100, ''Module-wide scope detected''),
            (configurationChanges a, 15 / 100, ''Modifies project configuration'')]
    \<and> listedWeightSum a \<le> 30 / 100
    \<and> rawConfidence a \<le> to_double (3 / 10)
    \<and> rawConfidence a \<le> 30 / 100
    \<and> \<not> isArchitectural (assessArchitecturalDecision a)
    \<and> recommendation (assessArchitecturalDecision a) \<noteq> Rec_record"
proof -
  from assms have q: "\<not> 3 \<le> length (affectedFiles a)" "\<not> 10 \<le> length (affectedConcepts a)"
    "scope a \<noteq> ScopeProject" "\<not> 5 \<le> dependentsCount a" "patternChanges a = []"
    "\<not> breakingChanges a"
    unfolding fast_path_value by (simp_all add: as_partial_def)
  have t: "triggeredCriteria a = filter (\<lambda>(t, w, r). t)
           [(scope a = ScopeModule, 15 / 100, ''Module-wide scope detected''),
            (configurationChanges a, 15 / 100, ''Modifies project configuration'')]"
    using q by (simp add: triggeredCriteria_def criteriaTable_def)
  have l: "listedWeightSum a \<le> 30 / 100"
    unfolding listedWeightSum_def t by simp
  have r: "rawConfidence a \<le> to_double (3 / 10)"
    unfolding rawConfidence_raw7 using q by (simp add: raw7_quiet)
  then have r': "rawConfidence a \<le> 30 / 100" unfolding d30 by simp
  have "\<not> 4 / 10 \<le> listedWeightSum a" using l by simp
  then have "\<not> isArchitectural (assessArchitecturalDecision a)"
    "recommendation (assessArchitecturalDecision a) \<noteq> Rec_record"
    unfolding isArchitectural_units recommendation_units by simp_all
  with t l r r' show ?thesis by simp
qed

theorem fast_path_false_bounds_score_witness:
  "isLikelyArchitectural (as_partial (analysis_of 2 9 ScopeModule 0 4 False True)) = Inr False
   \<and> rawConfidence (analysis_of 2 9 ScopeModule 0 4 False True) \<le> 30 / 100
   \<and> recommendation (assessArchitecturalDecision (analysis_of 2 9 ScopeModule 0 4 False True))
       \<noteq> Rec_record"
proof -
  have h: "isLikelyArchitectural (as_partial (analysis_of 2 9 ScopeModule 0 4 False True))
      = Inr False"
    unfolding fast_path_value by (simp add: as_partial_def analysis_of_def)
  from fast_path_false_bounds_score [OF h] h show ?thesis by simp
qed


section \<open>The scenarios of the specification\<close>

text \<open>
  Scenarios A to D, evaluated: three files alone give the double 0.3 and
  \<open>use_project_decision\<close>; with project scope the double 0.6 and record; the empty change
  gives 0 and skip; module scope alone gives the double 0.15 and skip.
\<close>

lemma d60: "to_double (6 / 10) = 5404319552844595 / 2 ^ 53"
  using to_double_eqI [of "-1" "6 / 10" 5404319552844595]
  by (simp add: power_int_minus)

lemma same_30: "to_double (5404319552844595 / 2 ^ 54) = 5404319552844595 / 2 ^ 54"
  using to_double_eqI [of "-2" "5404319552844595 / 2 ^ 54" 5404319552844595]
  by (simp add: power_int_minus)

lemma sum_30_30:
  "to_double (5404319552844595 / 2 ^ 54 + 5404319552844595 / 2 ^ 54) = 5404319552844595 / 2 ^ 53"
  using to_double_eqI [of "-1" "5404319552844595 / 2 ^ 54 + 5404319552844595 / 2 ^ 54"
      5404319552844595]
  by (simp add: power_int_minus)

lemma fadd_zero_30: "fadd 0 (to_double (3 / 10)) = to_double (3 / 10)"
  unfolding fadd_def d30 using same_30 by simp

lemma fadd_30_30: "fadd (to_double (3 / 10)) (to_double (3 / 10)) = to_double (6 / 10)"
  unfolding fadd_def d30 d60 by (rule sum_30_30)

lemma raw7_files: "raw7 True False ScopeFile False False False False = to_double (3 / 10)"
  by (simp only: raw7_def fstep_def if_True if_False Scope.distinct simp_thms fadd_zero_30)

lemma raw7_files_project:
  "raw7 True False ScopeProject False False False False = to_double (6 / 10)"
  by (simp only: raw7_def fstep_def if_True if_False Scope.distinct simp_thms fadd_zero_30
      fadd_30_30)

lemma assess_from_raw:
  "assessArchitecturalDecision a =
     \<lparr>isArchitectural = (to_double (4 / 10) \<le> rawConfidence a),
      confidence = min 1 (rawConfidence a),
      reasons = map (\<lambda>(t, w, r). r) (triggeredCriteria a),
      recommendation = (if to_double (4 / 10) \<le> rawConfidence a then Rec_record
         else if to_double (2 / 10) \<le> rawConfidence a then Rec_use_project_decision
         else Rec_skip)\<rparr>"
proof -
  have "reasons_acc (run_criteria a) = map (\<lambda>(t, w, r). r) (triggeredCriteria a)"
    unfolding run_criteria_table foldl_trigger_reasons by simp
  then show ?thesis
    by (simp add: assessArchitecturalDecision_def rawConfidence_def Let_def)
qed

lemma scenario_A:
  "assessArchitecturalDecision (analysis_of 3 0 ScopeFile 0 0 False False) =
     \<lparr>isArchitectural = False, confidence = to_double (3 / 10),
      reasons = [''Affects 3 files''], recommendation = Rec_use_project_decision\<rparr>"
proof -
  have r: "rawConfidence (analysis_of 3 0 ScopeFile 0 0 False False) = to_double (3 / 10)"
    by (simp add: rawConfidence_raw7 analysis_of_def raw7_files)
  have t: "map (\<lambda>(t, w, r). r) (triggeredCriteria (analysis_of 3 0 ScopeFile 0 0 False False))
      = [''Affects 3 files'']"
    by (simp add: triggeredCriteria_def criteriaTable_def analysis_of_def nat_to_string.simps
        digit_char_def)
  show ?thesis unfolding assess_from_raw r t unfolding d30 d40 d20 by simp
qed

lemma scenario_B:
  "assessArchitecturalDecision (analysis_of 3 0 ScopeProject 0 0 False False) =
     \<lparr>isArchitectural = True, confidence = to_double (6 / 10),
      reasons = [''Affects 3 files'', ''Project-wide scope detected''],
      recommendation = Rec_record\<rparr>"
proof -
  have r: "rawConfidence (analysis_of 3 0 ScopeProject 0 0 False False) = to_double (6 / 10)"
    by (simp add: rawConfidence_raw7 analysis_of_def raw7_files_project)
  have t: "map (\<lambda>(t, w, r). r)
        (triggeredCriteria (analysis_of 3 0 ScopeProject 0 0 False False))
      = [''Affects 3 files'', ''Project-wide scope detected'']"
    by (simp add: triggeredCriteria_def criteriaTable_def analysis_of_def nat_to_string.simps
        digit_char_def)
  show ?thesis unfolding assess_from_raw r t unfolding d60 d40 d20 by simp
qed

lemma scenario_C:
  "assessArchitecturalDecision (analysis_of 0 0 ScopeFile 0 0 False False) =
     \<lparr>isArchitectural = False, confidence = 0, reasons = [], recommendation = Rec_skip\<rparr>"
proof -
  have r: "rawConfidence (analysis_of 0 0 ScopeFile 0 0 False False) = 0"
    by (simp add: rawConfidence_raw7 analysis_of_def raw7_nothing)
  have t: "map (\<lambda>(t, w, r). r) (triggeredCriteria (analysis_of 0 0 ScopeFile 0 0 False False))
      = []"
    by (simp add: triggeredCriteria_def criteriaTable_def analysis_of_def)
  show ?thesis unfolding assess_from_raw r t unfolding d40 d20 by simp
qed

lemma scenario_D:
  "assessArchitecturalDecision (analysis_of 0 0 ScopeModule 0 0 False False) =
     \<lparr>isArchitectural = False, confidence = to_double (15 / 100),
      reasons = [''Module-wide scope detected''], recommendation = Rec_skip\<rparr>"
proof -
  have r: "rawConfidence (analysis_of 0 0 ScopeModule 0 0 False False) = to_double (15 / 100)"
    by (simp add: rawConfidence_raw7 analysis_of_def raw7_module)
  have t: "map (\<lambda>(t, w, r). r) (triggeredCriteria (analysis_of 0 0 ScopeModule 0 0 False False))
      = [''Module-wide scope detected'']"
    by (simp add: triggeredCriteria_def criteriaTable_def analysis_of_def)
  show ?thesis unfolding assess_from_raw r t unfolding d15 d40 d20 by simp
qed

end
